theory Spec2Isabelle
  imports Main "HOL-Library.Word"
begin

section \<open>Values, exceptions and outcomes\<close>

text \<open>
  The C functions of \<^verbatim>\<open>socket.c\<close> either return an mruby value, leave through
  \<^verbatim>\<open>mrb_raise\<close> with an exception class and a message, or read memory that lies
  outside the String they were handed. The three ways out are the three constructors of
  \<open>outcome\<close>. A Ruby String is a sequence of bytes, modelled as \<open>string\<close>.
  \<^verbatim>\<open>mrb_sys_fail\<close> raises \<open>SystemCallError\<close>; \<open>RubyError\<close> stands for the exceptions of
  other classes that Ruby code called from C may raise.
\<close>

datatype exn =
    TypeError string
  | ArgumentError string
  | SocketError string
  | SystemCallError string
  | RubyError string

datatype 'a outcome = Return 'a | Raise exn | OutOfBounds

text \<open>
  The mruby values the functions inspect. \<open>Fixnum\<close> carries an \<^verbatim>\<open>mrb_int\<close>, the
  type parameter (a machine word of the configured width); \<open>Voidp\<close> carries a C
  pointer (here the address of a list allocated by \<^verbatim>\<open>getaddrinfo\<close>); \<open>SockOpt\<close> is an
  instance of \<^verbatim>\<open>Socket::Option\<close> with its family, level, option name and data;
  \<open>Object\<close> stands for a value of any other class, named by its argument.
\<close>

datatype 'i mrb_value =
    Nil
  | TrueV
  | FalseV
  | Fixnum 'i
  | String string
  | Voidp nat
  | SockOpt 'i 'i 'i string
  | Object string

section \<open>The platform ABI\<close>

text \<open>
  The byte order, the size of \<^verbatim>\<open>int\<close>, the layout of \<^verbatim>\<open>struct sockaddr\<close>,
  \<^verbatim>\<open>struct sockaddr_un\<close>, \<^verbatim>\<open>struct sockaddr_in\<close> and \<^verbatim>\<open>struct sockaddr_in6\<close> and the
  values of the \<^verbatim>\<open>AF_*\<close> and \<^verbatim>\<open>NI_*\<close> macros come from the system headers. They are
  parameters of the model.
\<close>

record abi =
  big_endian :: bool
  sizeof_int :: nat
  sizeof_sockaddr :: nat
  sa_family_offset :: nat
  sa_family_size :: nat
  sizeof_sockaddr_un :: nat
  sun_path_offset :: nat
  sun_path_size :: nat
  sin_port_offset :: nat
  sin6_port_offset :: nat
  sizeof_sockaddr_storage :: nat
  AF_UNSPEC :: nat
  AF_UNIX :: nat
  AF_INET :: nat
  AF_INET6 :: nat
  NI_NUMERICHOST :: int
  NI_MAXHOST :: nat

text \<open>
  What every platform guarantees of these numbers: the family field lies inside the generic
  header, the header is a prefix of every concrete address structure, the path array and
  the port fields lie behind the family field and inside their structures, and the family
  constants are distinct values of the family field's type.
\<close>

definition abi_ok :: "abi \<Rightarrow> bool" where
  "abi_ok a \<longleftrightarrow>
     0 < sa_family_size a \<and>
     sa_family_offset a + sa_family_size a \<le> sizeof_sockaddr a \<and>
     sizeof_sockaddr a \<le> sizeof_sockaddr_un a \<and>
     sizeof_sockaddr a \<le> sizeof_sockaddr_storage a \<and>
     sa_family_offset a + sa_family_size a \<le> sun_path_offset a \<and>
     0 < sun_path_size a \<and>
     sun_path_offset a + sun_path_size a \<le> sizeof_sockaddr_un a \<and>
     sa_family_offset a + sa_family_size a \<le> sin_port_offset a \<and>
     sin_port_offset a + 2 \<le> sizeof_sockaddr a \<and>
     sa_family_offset a + sa_family_size a \<le> sin6_port_offset a \<and>
     sin6_port_offset a + 2 \<le> sizeof_sockaddr a \<and>
     AF_UNSPEC a < 256 ^ sa_family_size a \<and>
     AF_UNIX a < 256 ^ sa_family_size a \<and>
     AF_INET a < 256 ^ sa_family_size a \<and>
     AF_INET6 a < 256 ^ sa_family_size a \<and>
     distinct [AF_UNSPEC a, AF_UNIX a, AF_INET a, AF_INET6 a]"

text \<open>Linux on x86-64: little-endian, a two-byte family at offset 0, 108 bytes of path.\<close>

definition linux_x86_64 :: abi where
  "linux_x86_64 =
     \<lparr> big_endian = False,
       sizeof_int = 4,
       sizeof_sockaddr = 16,
       sa_family_offset = 0,
       sa_family_size = 2,
       sizeof_sockaddr_un = 110,
       sun_path_offset = 2,
       sun_path_size = 108,
       sin_port_offset = 2,
       sin6_port_offset = 2,
       sizeof_sockaddr_storage = 128,
       AF_UNSPEC = 0,
       AF_UNIX = 1,
       AF_INET = 2,
       AF_INET6 = 10,
       NI_NUMERICHOST = 1,
       NI_MAXHOST = 1025 \<rparr>"

section \<open>Bytes in memory\<close>

text \<open>
  An unsigned integer field of \<open>n\<close> bytes in host byte order, written to and read from
  memory. Storing truncates to the field's width, as the C assignment does.
\<close>

definition le_bytes :: "nat \<Rightarrow> nat \<Rightarrow> string" where
  "le_bytes n v = map (\<lambda>k. char_of (v div 256 ^ k)) [0..<n]"

definition le_value :: "string \<Rightarrow> nat" where
  "le_value bs = foldr (\<lambda>b acc. of_char b + 256 * acc) bs 0"

definition host_bytes :: "abi \<Rightarrow> nat \<Rightarrow> nat \<Rightarrow> string" where
  "host_bytes a n v = (if big_endian a then rev (le_bytes n v) else le_bytes n v)"

definition host_value :: "abi \<Rightarrow> string \<Rightarrow> nat" where
  "host_value a bs = le_value (if big_endian a then rev bs else bs)"

text \<open>
  \<open>peek\<close> reads \<open>n\<close> bytes at an offset of a buffer and \<open>poke\<close> overwrites the bytes at
  an offset; both are \<open>None\<close> where the access would leave the buffer.
\<close>

definition peek :: "string \<Rightarrow> nat \<Rightarrow> nat \<Rightarrow> string option" where
  "peek buf off n = (if off + n \<le> length buf then Some (take n (drop off buf)) else None)"

definition poke :: "string \<Rightarrow> nat \<Rightarrow> string \<Rightarrow> string option" where
  "poke buf off bs =
     (if off + length bs \<le> length buf
      then Some (take off buf @ bs @ drop (off + length bs) buf)
      else None)"

text \<open>
  \<^verbatim>\<open>mrb_str_new_cstr(mrb, p)\<close> copies the bytes from \<open>p\<close> up to the first NUL byte. With
  \<open>p\<close> pointing at an offset of a buffer the scan stays inside the buffer only if a NUL
  byte follows the offset.
\<close>

definition mrb_str_new_cstr :: "string \<Rightarrow> nat \<Rightarrow> string outcome" where
  "mrb_str_new_cstr buf off =
     (if off \<le> length buf \<and> CHR 0x00 \<in> set (drop off buf)
      then Return (takeWhile (\<lambda>c. c \<noteq> CHR 0x00) (drop off buf))
      else OutOfBounds)"

text \<open>
  \<^verbatim>\<open>mrb_str_buf_new(mrb, capa)\<close> allocates \<open>capa\<close> bytes and does not clear them: the
  block holds whatever the allocator hands out, the parameter \<open>fresh\<close>.
\<close>

definition mrb_str_buf_new :: "(nat \<Rightarrow> char) \<Rightarrow> nat \<Rightarrow> string" where
  "mrb_str_buf_new fresh capa = map fresh [0..<capa]"

text \<open>\<^verbatim>\<open>((struct sockaddr *)p)->sa_family\<close>: the family field of the bytes at \<open>p\<close>.\<close>

definition sa_family :: "abi \<Rightarrow> string \<Rightarrow> nat outcome" where
  "sa_family a buf =
     (case peek buf (sa_family_offset a) (sa_family_size a) of
        None \<Rightarrow> OutOfBounds
      | Some bs \<Rightarrow> Return (host_value a bs))"

section \<open>The sockaddr codec\<close>

text \<open>Decimal digits of a number, as \<^verbatim>\<open>%u\<close> prints them.\<close>

fun decimal :: "nat \<Rightarrow> string" where
  "decimal n =
     (if n < 10 then [char_of (48 + n)] else decimal (n div 10) @ [char_of (48 + n mod 10)])"

declare decimal.simps [simp del]

text \<open>\<^verbatim>\<open>Socket._sockaddr_family(sa)\<close>\<close>

definition mrb_socket_sockaddr_family :: "abi \<Rightarrow> string \<Rightarrow> nat outcome" where
  "mrb_socket_sockaddr_family a sa =
     (if length sa < sizeof_sockaddr a
      then Raise (SocketError ''invalid sockaddr (too short)'')
      else sa_family a sa)"

text \<open>
  \<^verbatim>\<open>Socket.sockaddr_un(path)\<close>. The buffer is allocated with the capacity of a
  \<^verbatim>\<open>struct sockaddr_un\<close>, the family, the path and one NUL byte are stored into it, and
  \<^verbatim>\<open>mrb_str_resize\<close> makes all of it the String that is returned. The second component
  of the result is the number of buffers the call has allocated.
\<close>

definition mrb_socket_sockaddr_un :: "abi \<Rightarrow> (nat \<Rightarrow> char) \<Rightarrow> string \<Rightarrow> string outcome \<times> nat" where
  "mrb_socket_sockaddr_un a fresh path =
     (if length path > sun_path_size a - 1
      then (Raise (ArgumentError (''too long unix socket path (max: ''
                     @ decimal (sun_path_size a - 1) @ ''bytes)'')), 0)
      else
        let s = mrb_str_buf_new fresh (sizeof_sockaddr_un a) in
        case poke s (sa_family_offset a) (host_bytes a (sa_family_size a) (AF_UNIX a)) of
          None \<Rightarrow> (OutOfBounds, 1)
        | Some s1 \<Rightarrow>
           (case poke s1 (sun_path_offset a) path of
              None \<Rightarrow> (OutOfBounds, 1)
            | Some s2 \<Rightarrow>
               (case poke s2 (sun_path_offset a + length path) [CHR 0x00] of
                  None \<Rightarrow> (OutOfBounds, 1)
                | Some s3 \<Rightarrow> (Return s3, 1))))"

text \<open>\<^verbatim>\<open>Addrinfo#unix_path\<close>, on the bytes of \<^verbatim>\<open>@sockaddr\<close>.\<close>

definition mrb_addrinfo_unix_path :: "abi \<Rightarrow> string \<Rightarrow> string outcome" where
  "mrb_addrinfo_unix_path a sastr =
     (case sa_family a sastr of
        OutOfBounds \<Rightarrow> OutOfBounds
      | Raise e \<Rightarrow> Raise e
      | Return f \<Rightarrow>
          if f \<noteq> AF_UNIX a then Raise (SocketError ''need AF_UNIX address'')
          else mrb_str_new_cstr sastr (sun_path_offset a))"

section \<open>Presentation and binary form of IP addresses\<close>

text \<open>
  \<^verbatim>\<open>inet_ntop\<close>, \<^verbatim>\<open>inet_pton\<close> and \<^verbatim>\<open>getnameinfo\<close> belong to the C library. For
  \<^verbatim>\<open>AF_INET\<close> the text form is fixed: four decimal numbers separated by dots, printed with
  \<^verbatim>\<open>%u.%u.%u.%u\<close> and read back by a scanner that accepts exactly four numbers up to 255
  without leading zeros. For \<^verbatim>\<open>AF_INET6\<close> a library may choose among several text forms of
  one address, so both directions are parameters, as is \<^verbatim>\<open>getnameinfo\<close>, which receives the
  address, its length, the host buffer and the flags and gives back its status and the
  host buffer.
\<close>

record libc =
  inet_ntop6 :: "string \<Rightarrow> string option"
  inet_pton6 :: "string \<Rightarrow> string option"
  getnameinfo :: "string \<Rightarrow> nat \<Rightarrow> string \<Rightarrow> int \<Rightarrow> int \<times> string"

fun inet_ntop4 :: "string \<Rightarrow> string" where
  "inet_ntop4 [] = []"
| "inet_ntop4 [b] = decimal (of_char b)"
| "inet_ntop4 (b # bs) = decimal (of_char b) @ CHR ''.'' # inet_ntop4 bs"

text \<open>
  The scanner of \<^verbatim>\<open>inet_pton\<close> for \<^verbatim>\<open>AF_INET\<close>: \<open>tmp\<close> holds the finished octets,
  \<open>cur\<close> the octet being read and \<open>saw\<close> whether a digit of it has been seen.
\<close>

fun inet_pton4_scan :: "string \<Rightarrow> nat list \<Rightarrow> nat \<Rightarrow> bool \<Rightarrow> nat list option" where
  "inet_pton4_scan [] tmp cur saw =
     (if length tmp + (if saw then 1 else 0) < 4 then None else Some (take 4 (tmp @ [cur])))"
| "inet_pton4_scan (ch # src) tmp cur saw =
     (if 48 \<le> (of_char ch :: nat) \<and> (of_char ch :: nat) \<le> 57 then
        let new = cur * 10 + (of_char ch - 48) in
        if saw \<and> cur = 0 then None
        else if new > 255 then None
        else if \<not> saw \<and> length tmp + 1 > 4 then None
        else inet_pton4_scan src tmp new True
      else if ch = CHR ''.'' \<and> saw then
        if length tmp + 1 = 4 then None
        else inet_pton4_scan src (tmp @ [cur]) 0 False
      else None)"

definition inet_pton4 :: "string \<Rightarrow> string option" where
  "inet_pton4 src = map_option (map char_of) (inet_pton4_scan src [] 0 False)"

text \<open>The bytes of a buffer up to its first NUL byte: the buffer read as a C string.\<close>

definition c_str :: "string \<Rightarrow> string" where
  "c_str buf = takeWhile (\<lambda>c. c \<noteq> CHR 0x00) buf"

text \<open>
  \<^verbatim>\<open>inet_ntop(af, src, dst, dstsize)\<close>: \<open>None\<close> is the NULL it returns for an unsupported
  family or a destination that is too small.
\<close>

definition inet_ntop :: "abi \<Rightarrow> libc \<Rightarrow> int \<Rightarrow> string \<Rightarrow> nat \<Rightarrow> string option outcome" where
  "inet_ntop a L af src dstsize =
     (if af = int (AF_INET a) then
        (case peek src 0 4 of
           None \<Rightarrow> OutOfBounds
         | Some bs \<Rightarrow> Return (if length (inet_ntop4 bs) < dstsize then Some (inet_ntop4 bs) else None))
      else if af = int (AF_INET6 a) then
        (case peek src 0 16 of
           None \<Rightarrow> OutOfBounds
         | Some bs \<Rightarrow>
            Return (case inet_ntop6 L bs of
                      None \<Rightarrow> None
                    | Some t \<Rightarrow> if length (c_str t) < dstsize then Some (c_str t) else None))
      else Return None)"

text \<open>\<^verbatim>\<open>IPSocket.ntop(af, addr)\<close>\<close>

definition mrb_ipsocket_ntop :: "abi \<Rightarrow> libc \<Rightarrow> int \<Rightarrow> string \<Rightarrow> string outcome" where
  "mrb_ipsocket_ntop a L af addr =
     (let n = length addr in
      if (af = int (AF_INET a) \<and> n \<noteq> 4) \<or> (af = int (AF_INET6 a) \<and> n \<noteq> 16)
      then Raise (ArgumentError ''invalid address'')
      else
        case inet_ntop a L af addr 50 of
          OutOfBounds \<Rightarrow> OutOfBounds
        | Raise e \<Rightarrow> Raise e
        | Return None \<Rightarrow> Raise (ArgumentError ''invalid address'')
        | Return (Some buf) \<Rightarrow> Return buf)"

text \<open>
  \<^verbatim>\<open>IPSocket.pton(af, str)\<close>. The text is copied into a 50-byte array and terminated
  there, and the library reads the array as a C string.
\<close>

definition mrb_ipsocket_pton :: "abi \<Rightarrow> libc \<Rightarrow> int \<Rightarrow> string \<Rightarrow> string outcome" where
  "mrb_ipsocket_pton a L af bp =
     (let n = length bp in
      if n > 50 - 1 then Raise (ArgumentError ''invalid address'')
      else
        let buf = c_str (bp @ [CHR 0x00]) in
        if af = int (AF_INET a) then
          (case inet_pton4 buf of
             None \<Rightarrow> Raise (ArgumentError ''invalid address'')
           | Some in4 \<Rightarrow> Return in4)
        else if af = int (AF_INET6 a) then
          (case inet_pton6 L buf of
             None \<Rightarrow> Raise (ArgumentError ''invalid address'')
           | Some in6 \<Rightarrow> Return in6)
        else Raise (ArgumentError ''unsupported address family''))"

text \<open>
  What the C library promises of its two \<^verbatim>\<open>AF_INET6\<close> conversions at one address: the
  text it prints fits \<^verbatim>\<open>INET6_ADDRSTRLEN\<close> (46 bytes with the terminator) and reads back as
  the same sixteen bytes.
\<close>

definition inet6_text_reads_back :: "libc \<Rightarrow> string \<Rightarrow> bool" where
  "inet6_text_reads_back L bytes =
     (case inet_ntop6 L bytes of
        None \<Rightarrow> False
      | Some t \<Rightarrow> length (c_str t) < 46 \<and> inet_pton6 L (c_str t) = Some bytes)"

section \<open>Numeric decoding of an address\<close>

definition ntohs :: "abi \<Rightarrow> nat \<Rightarrow> nat" where
  "ntohs a v = (if big_endian a then v else (v mod 256) * 256 + (v div 256) mod 256)"

text \<open>
  \<^verbatim>\<open>sa2addrlist(mrb, sa, salen)\<close>. \<open>sa\<close> is the memory the pointer refers to (in the one
  caller, \<^verbatim>\<open>IPSocket#recvfrom\<close>, a whole \<^verbatim>\<open>struct sockaddr_storage\<close>), \<open>salen\<close> the
  length the kernel reported.
\<close>

definition sa2addrlist ::
  "abi \<Rightarrow> libc \<Rightarrow> (nat \<Rightarrow> char) \<Rightarrow> string \<Rightarrow> nat \<Rightarrow> 'w::len word mrb_value list outcome" where
  "sa2addrlist a L fresh sa salen =
     (case sa_family a sa of
        OutOfBounds \<Rightarrow> OutOfBounds
      | Raise e \<Rightarrow> Raise e
      | Return f \<Rightarrow>
          (if f \<noteq> AF_INET a \<and> f \<noteq> AF_INET6 a then Raise (ArgumentError ''bad af'')
           else
             (let afstr = (if f = AF_INET a then ''AF_INET'' else ''AF_INET6'');
                  off = (if f = AF_INET a then sin_port_offset a else sin6_port_offset a)
              in (case peek sa off 2 of
                    None \<Rightarrow> OutOfBounds
                  | Some pb \<Rightarrow>
                     (let port = ntohs a (host_value a pb);
                          host0 = mrb_str_buf_new fresh (NI_MAXHOST a);
                          reply = getnameinfo L sa salen host0 (NI_NUMERICHOST a)
                      in (if fst reply = - 1 then Raise (SystemCallError ''getnameinfo'')
                          else
                            (case mrb_str_new_cstr (snd reply) 0 of
                               OutOfBounds \<Rightarrow> OutOfBounds
                             | Raise e \<Rightarrow> Raise e
                             | Return host \<Rightarrow>
                                 Return [String afstr, Fixnum (of_nat port),
                                         String host, String host])))))))"

section \<open>Socket options\<close>

text \<open>
  The system calls are parameters: \<^verbatim>\<open>getsockopt\<close> gives its return value and the
  \<^verbatim>\<open>int\<close> it stored, \<^verbatim>\<open>getsockname\<close> its return value and the family field of the
  address it stored, \<^verbatim>\<open>setsockopt\<close> receives the option bytes and gives its return value.
\<close>

record kernel =
  sys_getsockopt :: "int \<Rightarrow> int \<Rightarrow> int \<Rightarrow> int \<times> int"
  sys_getsockname :: "int \<Rightarrow> int \<times> nat"
  sys_setsockopt :: "int \<Rightarrow> int \<Rightarrow> int \<Rightarrow> string \<Rightarrow> int"

definition socket_family :: "abi \<Rightarrow> kernel \<Rightarrow> int \<Rightarrow> nat" where
  "socket_family a k s =
     (case sys_getsockname k s of (rc, ss_family) \<Rightarrow> if rc = - 1 then AF_UNSPEC a else ss_family)"

text \<open>The bytes of a signed C integer of \<open>n\<close> bytes (two's complement, host order).\<close>

definition int_bytes :: "abi \<Rightarrow> nat \<Rightarrow> int \<Rightarrow> string" where
  "int_bytes a n v = host_bytes a n (nat (v mod 256 ^ n))"

text \<open>\<^verbatim>\<open>BasicSocket#getsockopt(level, optname)\<close> on the descriptor \<open>s\<close>.\<close>

definition mrb_basicsocket_getsockopt ::
  "abi \<Rightarrow> kernel \<Rightarrow> int \<Rightarrow> 'w::len word \<Rightarrow> 'w word \<Rightarrow> 'w word mrb_value outcome" where
  "mrb_basicsocket_getsockopt a k s level optname =
     (case sys_getsockopt k s (sint level) (sint optname) of
        (rc, opt) \<Rightarrow>
          if rc = - 1 then Raise (SystemCallError ''getsockopt'')
          else
            let family = socket_family a k s;
                data = int_bytes a (sizeof_int a) opt
            in Return (SockOpt (of_nat family) level optname data))"






section \<open>The address resolver\<close>

text \<open>
  \<^verbatim>\<open>struct addrinfo\<close>, with the \<^verbatim>\<open>ai_addrlen\<close> bytes at \<^verbatim>\<open>ai_addr\<close> as a string and the
  \<^verbatim>\<open>ai_next\<close> chain as a list. The resolver of the C library is a parameter; it gives its
  status, the pointer \<^verbatim>\<open>res0\<close> it stored and the list found there.
\<close>

record addrinfo =
  ai_flags :: int
  ai_family :: int
  ai_socktype :: int
  ai_protocol :: int
  ai_addr :: string

record gai_reply =
  gai_status :: int
  res0 :: nat
  gai_list :: "addrinfo list"

text \<open>
  The state the resolver touches: the class variable \<^verbatim>\<open>_lastai\<close> of \<^verbatim>\<open>Addrinfo\<close> and the
  pointers handed to \<^verbatim>\<open>freeaddrinfo\<close> so far, oldest first.
\<close>

record 'i interp =
  lastai :: "'i mrb_value"
  freed :: "nat list"

text \<open>\<^verbatim>\<open>mrb_str_to_cstr\<close> refuses a String with a NUL byte inside.\<close>

definition mrb_str_to_cstr :: "string \<Rightarrow> string outcome" where
  "mrb_str_to_cstr s =
     (if CHR 0x00 \<in> set s then Raise (ArgumentError ''string contains null byte'')
      else Return s)"

text \<open>\<^verbatim>\<open>Fixnum#to_s\<close>\<close>

definition fixnum_to_s :: "'w::len word \<Rightarrow> string" where
  "fixnum_to_s i =
     (if sint i < 0 then CHR ''-'' # decimal (nat (- sint i)) else decimal (nat (sint i)))"

definition nodename_cstr :: "'w::len word mrb_value \<Rightarrow> string option outcome" where
  "nodename_cstr nodename =
     (case nodename of
        String s \<Rightarrow>
          (case mrb_str_to_cstr s of
             Return h \<Rightarrow> Return (Some h) | Raise e \<Rightarrow> Raise e | OutOfBounds \<Rightarrow> OutOfBounds)
      | Nil \<Rightarrow> Return None
      | _ \<Rightarrow> Raise (TypeError ''nodename must be String or nil''))"

definition servname_cstr :: "'w::len word mrb_value \<Rightarrow> string option outcome" where
  "servname_cstr service =
     (case service of
        String s \<Rightarrow>
          (case mrb_str_to_cstr s of
             Return h \<Rightarrow> Return (Some h) | Raise e \<Rightarrow> Raise e | OutOfBounds \<Rightarrow> OutOfBounds)
      | Fixnum i \<Rightarrow>
          (case mrb_str_to_cstr (fixnum_to_s i) of
             Return h \<Rightarrow> Return (Some h) | Raise e \<Rightarrow> Raise e | OutOfBounds \<Rightarrow> OutOfBounds)
      | Nil \<Rightarrow> Return None
      | _ \<Rightarrow> Raise (TypeError ''service must be String, Fixnum, or nil''))"

definition make_hints ::
  "'w::len word \<Rightarrow> 'w word mrb_value \<Rightarrow> 'w word mrb_value \<Rightarrow> addrinfo" where
  "make_hints flags family socktype =
     \<lparr> ai_flags = sint flags,
       ai_family = (case family of Fixnum f \<Rightarrow> sint f | _ \<Rightarrow> 0),
       ai_socktype = (case socktype of Fixnum t \<Rightarrow> sint t | _ \<Rightarrow> 0),
       ai_protocol = 0,
       ai_addr = [] \<rparr>"

text \<open>Lines 78 to 82: a list left in \<^verbatim>\<open>_lastai\<close> is freed and the variable set to nil.\<close>

definition release_lastai :: "'i interp \<Rightarrow> 'i interp" where
  "release_lastai st =
     (case lastai st of
        Voidp p \<Rightarrow> st\<lparr> freed := freed st @ [p], lastai := Nil \<rparr>
      | _ \<Rightarrow> st)"

text \<open>
  The loop over the list: one call of \<^verbatim>\<open>Addrinfo.new\<close> for each entry, pushed to the result
  array. \<^verbatim>\<open>Addrinfo.new\<close> is Ruby code and may raise, which ends the loop and the call.
\<close>

fun collect ::
  "(string \<Rightarrow> int \<Rightarrow> int \<Rightarrow> int \<Rightarrow> 'o outcome) \<Rightarrow> addrinfo list \<Rightarrow> 'o list \<Rightarrow> 'o list outcome" where
  "collect new [] ary = Return ary"
| "collect new (res # rest) ary =
     (case new (ai_addr res) (ai_family res) (ai_socktype res) (ai_protocol res) of
        Return ai \<Rightarrow> collect new rest (ary @ [ai])
      | Raise e \<Rightarrow> Raise e
      | OutOfBounds \<Rightarrow> OutOfBounds)"

text \<open>\<^verbatim>\<open>Addrinfo.getaddrinfo(nodename, service, family, socktype, protocol, flags)\<close>\<close>

definition mrb_addrinfo_getaddrinfo ::
  "(string option \<Rightarrow> string option \<Rightarrow> addrinfo \<Rightarrow> gai_reply) \<Rightarrow>
   (string \<Rightarrow> int \<Rightarrow> int \<Rightarrow> int \<Rightarrow> 'o outcome) \<Rightarrow>
   'w::len word interp \<Rightarrow>
   'w word mrb_value \<Rightarrow> 'w word mrb_value \<Rightarrow> 'w word mrb_value \<Rightarrow> 'w word mrb_value \<Rightarrow>
   'w word mrb_value \<Rightarrow> 'w word \<Rightarrow> 'o list outcome \<times> 'w word interp" where
  "mrb_addrinfo_getaddrinfo getaddrinfo new st nodename service family socktype protocol flags =
     (case nodename_cstr nodename of
        Raise e \<Rightarrow> (Raise e, st)
      | OutOfBounds \<Rightarrow> (OutOfBounds, st)
      | Return hostname \<Rightarrow>
         (case servname_cstr service of
            Raise e \<Rightarrow> (Raise e, st)
          | OutOfBounds \<Rightarrow> (OutOfBounds, st)
          | Return servname \<Rightarrow>
              (let hints = make_hints flags family socktype;
                   st1 = release_lastai st;
                   reply = getaddrinfo hostname servname hints
               in (if gai_status reply \<noteq> 0 then (Raise (SocketError ''getaddrinfo''), st1)
                   else
                     (let st2 = st1\<lparr> lastai := Voidp (res0 reply) \<rparr>
                      in (case collect new (gai_list reply) [] of
                            Return ary \<Rightarrow>
                              (Return ary,
                               st2\<lparr> freed := freed st2 @ [res0 reply], lastai := Nil \<rparr>)
                          | Raise e \<Rightarrow> (Raise e, st2)
                          | OutOfBounds \<Rightarrow> (OutOfBounds, st2)))))))"

text \<open>\<^verbatim>\<open>mrb_mruby_socket_gem_init\<close> sets \<^verbatim>\<open>_lastai\<close> to nil.\<close>

definition mrb_mruby_socket_gem_init :: "'i interp" where
  "mrb_mruby_socket_gem_init = \<lparr> lastai = Nil, freed = [] \<rparr>"

text \<open>\<^verbatim>\<open>mrb_mruby_socket_gem_final\<close>\<close>

definition mrb_mruby_socket_gem_final :: "'i interp \<Rightarrow> 'i interp" where
  "mrb_mruby_socket_gem_final st =
     (case lastai st of
        Voidp p \<Rightarrow> st\<lparr> freed := freed st @ [p] \<rparr>
      | _ \<Rightarrow> st)"

section \<open>Concrete environments\<close>

text \<open>A heap whose free blocks still hold the bytes of earlier use.\<close>

definition stale_heap :: "nat \<Rightarrow> char" where
  "stale_heap i = CHR 0xFF"

text \<open>A kernel whose \<^verbatim>\<open>getsockopt\<close> succeeds with the value 1 and whose \<^verbatim>\<open>getsockname\<close> fails.\<close>

definition unnamed_socket_kernel :: kernel where
  "unnamed_socket_kernel =
     \<lparr> sys_getsockopt = (\<lambda>s level optname. (0, 1)),
       sys_getsockname = (\<lambda>s. (- 1, 0)),
       sys_setsockopt = (\<lambda>s level optname optval. 0) \<rparr>"

text \<open>
  An IPv4 socket address as Linux lays it out: family 2, port 80, address 127.0.0.1 and
  eight bytes of padding; and a UNIX address of the same size.
\<close>

definition inet_sockaddr :: string where
  "inet_sockaddr = [CHR 0x02, CHR 0x00, CHR 0x00, CHR 0x50, CHR 0x7F, CHR 0x00, CHR 0x00, CHR 0x01,
                    CHR 0x00, CHR 0x00, CHR 0x00, CHR 0x00, CHR 0x00, CHR 0x00, CHR 0x00, CHR 0x00]"

definition unix_sockaddr :: string where
  "unix_sockaddr = [CHR 0x01, CHR 0x00, CHR ''/'', CHR ''s'', CHR 0x00, CHR 0x00, CHR 0x00, CHR 0x00,
                    CHR 0x00, CHR 0x00, CHR 0x00, CHR 0x00, CHR 0x00, CHR 0x00, CHR 0x00, CHR 0x00]"

text \<open>An interpreter whose earlier resolution was interrupted and left the list at 7.\<close>

definition interrupted :: "32 word interp" where
  "interrupted = \<lparr> lastai = Voidp 7, freed = [] \<rparr>"

text \<open>A resolver that finds nothing, one that finds a single IPv4 address, and \<^verbatim>\<open>Addrinfo.new\<close>
  as a constructor that keeps its arguments.\<close>

definition resolver_fails :: "string option \<Rightarrow> string option \<Rightarrow> addrinfo \<Rightarrow> gai_reply" where
  "resolver_fails hostname servname hints = \<lparr> gai_status = - 2, res0 = 0, gai_list = [] \<rparr>"

definition resolver_finds :: "string option \<Rightarrow> string option \<Rightarrow> addrinfo \<Rightarrow> gai_reply" where
  "resolver_finds hostname servname hints =
     \<lparr> gai_status = 0, res0 = 4096,
       gai_list = [\<lparr> ai_flags = 0, ai_family = 2, ai_socktype = 1, ai_protocol = 6,
                     ai_addr = inet_sockaddr \<rparr>] \<rparr>"

definition addrinfo_new :: "string \<Rightarrow> int \<Rightarrow> int \<Rightarrow> int \<Rightarrow> (string \<times> int \<times> int \<times> int) outcome" where
  "addrinfo_new sa family socktype protocol = Return (sa, family, socktype, protocol)"

section \<open>The AF_INET6 conversions of the BSD resolver library\<close>

text \<open>
  The C library's \<^verbatim>\<open>inet_ntop\<close> and \<^verbatim>\<open>inet_pton\<close> for \<^verbatim>\<open>AF_INET6\<close> as the BSD resolver
  code implements them, which the GNU C library and the BSDs have taken over. The printer
  splits the address into eight 16-bit words, leaves out the first longest run of two or
  more zero words, and prints the last four bytes as dotted decimal for an address it takes
  for an embedded IPv4 address. The scanner reads the text one character at a time.
\<close>

definition hex_digit :: "nat \<Rightarrow> char" where
  "hex_digit d = (if d < 10 then char_of (48 + d) else char_of (87 + d))"

text \<open>\<^verbatim>\<open>%x\<close>\<close>

fun hex :: "nat \<Rightarrow> string" where
  "hex n = (if n < 16 then [hex_digit n] else hex (n div 16) @ [hex_digit (n mod 16)])"

declare hex.simps [simp del]

text \<open>The position of \<^verbatim>\<open>tolower(ch)\<close> in \<^verbatim>\<open>"0123456789abcdef"\<close>.\<close>

definition xdigit_val :: "char \<Rightarrow> nat option" where
  "xdigit_val ch =
     (let c = (of_char ch :: nat) in
      if 48 \<le> c \<and> c \<le> 57 then Some (c - 48)
      else if 97 \<le> c \<and> c \<le> 102 then Some (c - 87)
      else if 65 \<le> c \<and> c \<le> 70 then Some (c - 55)
      else None)"

fun words_of :: "string \<Rightarrow> nat list" where
  "words_of (hi # lo # rest) = (256 * of_char hi + of_char lo) # words_of rest"
| "words_of _ = []"

definition bytes_of :: "nat list \<Rightarrow> string" where
  "bytes_of ws = concat (map (\<lambda>w. [char_of (w div 256), char_of (w mod 256)]) ws)"

text \<open>
  The search for the run of zero words: \<open>best\<close> and \<open>cur\<close> are the best run so far and the
  run being counted, each with its base and its length.
\<close>

definition better :: "(nat \<times> nat) option \<Rightarrow> nat \<times> nat \<Rightarrow> (nat \<times> nat) option" where
  "better best cur =
     (case best of None \<Rightarrow> Some cur | Some b \<Rightarrow> if snd cur > snd b then Some cur else Some b)"

fun find_run ::
  "nat list \<Rightarrow> nat \<Rightarrow> (nat \<times> nat) option \<Rightarrow> (nat \<times> nat) option \<Rightarrow> (nat \<times> nat) option" where
  "find_run [] i best cur = (case cur of None \<Rightarrow> best | Some c \<Rightarrow> better best c)"
| "find_run (w # ws) i best cur =
     (if w = 0
      then find_run ws (i + 1) best
             (case cur of None \<Rightarrow> Some (i, 1) | Some (b, l) \<Rightarrow> Some (b, l + 1))
      else find_run ws (i + 1) (case cur of None \<Rightarrow> best | Some c \<Rightarrow> better best c) None)"

definition best_run :: "nat list \<Rightarrow> (nat \<times> nat) option" where
  "best_run ws =
     (case find_run ws 0 None None of
        None \<Rightarrow> None
      | Some (b, l) \<Rightarrow> if l < 2 then None else Some (b, l))"

definition inside :: "(nat \<times> nat) option \<Rightarrow> nat \<Rightarrow> bool" where
  "inside best i = (case best of None \<Rightarrow> False | Some (b, l) \<Rightarrow> b \<le> i \<and> i < b + l)"

definition encapsulated :: "(nat \<times> nat) option \<Rightarrow> nat \<Rightarrow> bool" where
  "encapsulated best w5 =
     (case best of None \<Rightarrow> False | Some (b, l) \<Rightarrow> b = 0 \<and> (l = 6 \<or> (l = 5 \<and> w5 = 0xffff)))"

text \<open>
  The printing loop at word \<open>i\<close>, with the words from \<open>i\<close> on; \<open>v4\<close> is the dotted
  decimal form of the last four bytes.
\<close>

fun ntop6_emit :: "(nat \<times> nat) option \<Rightarrow> nat \<Rightarrow> string \<Rightarrow> nat list \<Rightarrow> nat \<Rightarrow> string" where
  "ntop6_emit best w5 v4 [] i = []"
| "ntop6_emit best w5 v4 (w # ws) i =
     (if inside best i
      then (if Some i = map_option fst best then [CHR '':''] else [])
             @ ntop6_emit best w5 v4 ws (i + 1)
      else (if i \<noteq> 0 then [CHR '':''] else [])
             @ (if i = 6 \<and> encapsulated best w5 then v4
                else hex w @ ntop6_emit best w5 v4 ws (i + 1)))"

text \<open>
  The printer, on the sixteen bytes at \<open>src\<close>. Its buffer holds the longest text there is,
  so it always gives one.
\<close>

definition bsd_inet_ntop6 :: "string \<Rightarrow> string option" where
  "bsd_inet_ntop6 src =
     (let words = words_of (take 16 src);
          best = best_run words
      in Some (ntop6_emit best (words ! 5) (inet_ntop4 (take 4 (drop 12 src))) words 0
               @ (case best of
                    None \<Rightarrow> []
                  | Some (b, l) \<Rightarrow> if b + l = 8 then [CHR '':''] else [])))"

text \<open>
  The end of the scan: a pending word is stored, and after a \<^verbatim>\<open>::\<close> the words behind it
  are moved to the end and the gap is filled with zeros.
\<close>

definition pton6_finish :: "nat list \<Rightarrow> nat option \<Rightarrow> bool \<Rightarrow> nat \<Rightarrow> nat list option" where
  "pton6_finish g colonp saw val =
     (if saw \<and> length g + 1 > 8 then None
      else
        let g1 = (if saw then g @ [val] else g) in
        case colonp of
          Some c \<Rightarrow>
            if length g1 = 8 then None
            else Some (take c g1 @ replicate (8 - length g1) 0 @ drop c g1)
        | None \<Rightarrow> if length g1 \<noteq> 8 then None else Some g1)"

text \<open>
  What the scanner does at a dot: the current token is handed to the \<^verbatim>\<open>AF_INET\<close> scanner
  and, if that accepts it, its four bytes are stored as two words and the scan ends.
\<close>

definition pton6_dot :: "nat list \<Rightarrow> nat option \<Rightarrow> string \<Rightarrow> nat list option" where
  "pton6_dot g colonp curtok =
     (case inet_pton4_scan curtok [] 0 False of
        Some [a, b, c, d] \<Rightarrow> pton6_finish (g @ [256 * a + b, 256 * c + d]) colonp False 0
      | _ \<Rightarrow> None)"

text \<open>
  The scanning loop: \<open>g\<close> holds the words stored so far, \<open>colonp\<close> the place of the
  \<^verbatim>\<open>::\<close>, \<open>curtok\<close> the text from the start of the current token, \<open>saw\<close> and \<open>val\<close>
  the hexadecimal number being read.
\<close>

fun pton6_scan ::
  "string \<Rightarrow> nat list \<Rightarrow> nat option \<Rightarrow> string \<Rightarrow> bool \<Rightarrow> nat \<Rightarrow> nat list option" where
  "pton6_scan [] g colonp curtok saw val = pton6_finish g colonp saw val"
| "pton6_scan (ch # src) g colonp curtok saw val =
     (case xdigit_val ch of
        Some d \<Rightarrow>
          if val * 16 + d > 0xffff then None
          else pton6_scan src g colonp curtok True (val * 16 + d)
      | None \<Rightarrow>
          if ch = CHR '':'' then
            (if \<not> saw then
               (if colonp \<noteq> None then None
                else pton6_scan src g (Some (length g)) src False val)
             else if src = [] then None
             else if length g + 1 > 8 then None
             else pton6_scan src (g @ [val]) colonp src False 0)
          else if ch = CHR ''.'' \<and> length g + 2 \<le> 8 then pton6_dot g colonp curtok
          else None)"

text \<open>
  The scanner: a leading colon must be the first of two, and the words that the loop
  gives are stored as sixteen bytes.
\<close>

definition pton6_words :: "string \<Rightarrow> nat list option" where
  "pton6_words src =
     (case src of
        [] \<Rightarrow> pton6_scan src [] None src False 0
      | ch # rest \<Rightarrow>
          if ch = CHR '':'' then
            (case rest of
               [] \<Rightarrow> None
             | ch2 # rest2 \<Rightarrow>
                 if ch2 \<noteq> CHR '':'' then None else pton6_scan rest [] None rest False 0)
          else pton6_scan src [] None src False 0)"

definition bsd_inet_pton6 :: "string \<Rightarrow> string option" where
  "bsd_inet_pton6 src = map_option bytes_of (pton6_words src)"

text \<open>Words in hexadecimal, separated by colons.\<close>

fun colon_hex :: "nat list \<Rightarrow> string" where
  "colon_hex [] = []"
| "colon_hex [w] = hex w"
| "colon_hex (w # ws) = hex w @ CHR '':'' # colon_hex ws"

text \<open>Words in hexadecimal, each after a colon.\<close>

definition colons :: "nat list \<Rightarrow> string" where
  "colons ws = concat (map (\<lambda>w. CHR '':'' # hex w) ws)"

text \<open>
  A C library with these conversions, whose \<^verbatim>\<open>getnameinfo\<close> answers every query with
  the name \<^verbatim>\<open>192.0.2.1\<close>.
\<close>

definition bsd_libc :: libc where
  "bsd_libc =
     \<lparr> inet_ntop6 = bsd_inet_ntop6,
       inet_pton6 = bsd_inet_pton6,
       getnameinfo = (\<lambda>sa salen host flags. (0, ''192.0.2.1'' @ CHR 0x00 # drop 10 host)) \<rparr>"

text \<open>The address \<^verbatim>\<open>2001:db8::1\<close>.\<close>

definition documentation_address :: string where
  "documentation_address =
     [CHR 0x20, CHR 0x01, CHR 0x0D, CHR 0xB8, CHR 0x00, CHR 0x00, CHR 0x00, CHR 0x00,
      CHR 0x00, CHR 0x00, CHR 0x00, CHR 0x00, CHR 0x00, CHR 0x00, CHR 0x00, CHR 0x01]"

section \<open>Properties named by the specification\<close>

text \<open>\<open>untouched a path i\<close>: byte \<open>i\<close> belongs neither to the family field nor to the path
  and its terminator.\<close>

definition untouched :: "abi \<Rightarrow> string \<Rightarrow> nat \<Rightarrow> bool" where
  "untouched a path i \<longleftrightarrow>
     \<not> (sa_family_offset a \<le> i \<and> i < sa_family_offset a + sa_family_size a) \<and>
     \<not> (sun_path_offset a \<le> i \<and> i \<le> sun_path_offset a + length path)"

text \<open>Running a second operation on the value a first one returned.\<close>

definition then_do :: "'a outcome \<Rightarrow> ('a \<Rightarrow> 'b outcome) \<Rightarrow> 'b outcome" where
  "then_do r f = (case r of Return x \<Rightarrow> f x | Raise e \<Rightarrow> Raise e | OutOfBounds \<Rightarrow> OutOfBounds)"

text \<open>
  The property the specification asks of the bytes \<^verbatim>\<open>Socket.sockaddr_un\<close> does not write:
  all of them are zero.
\<close>

definition zero_padded :: "abi \<Rightarrow> string \<Rightarrow> string \<Rightarrow> bool" where
  "zero_padded a path s =
     list_all (\<lambda>i. untouched a path i \<longrightarrow> s ! i = CHR 0x00) [0..<length s]"

text \<open>
  The cache slot is \<open>Empty\<close> when \<^verbatim>\<open>_lastai\<close> is nil and \<open>Holding\<close> when it is a pointer;
  the C code stores nothing else there.
\<close>

definition cache_state :: "'i interp \<Rightarrow> bool" where
  "cache_state st = (case lastai st of Nil \<Rightarrow> True | Voidp p \<Rightarrow> True | _ \<Rightarrow> False)"

text \<open>The kinds of value the specification admits for the host name and for the service.\<close>

definition text_or_absent :: "'i mrb_value \<Rightarrow> bool" where
  "text_or_absent v = (case v of String s \<Rightarrow> True | Nil \<Rightarrow> True | _ \<Rightarrow> False)"

definition text_number_or_absent :: "'i mrb_value \<Rightarrow> bool" where
  "text_number_or_absent v =
     (case v of String s \<Rightarrow> True | Fixnum i \<Rightarrow> True | Nil \<Rightarrow> True | _ \<Rightarrow> False)"


section \<open>Integer fields and buffer accesses\<close>

lemma length_le_bytes [simp]: "length (le_bytes n v) = n"
  by (simp add: le_bytes_def)

lemma le_bytes_Suc: "le_bytes (Suc n) v = char_of v # le_bytes n (v div 256)"
proof -
  have "[0..<Suc n] = 0 # map Suc [0..<n]"
    by (simp add: upt_conv_Cons map_Suc_upt del: upt_Suc)
  then show ?thesis
    by (simp add: le_bytes_def comp_def div_mult2_eq del: upt_Suc)
qed

lemma le_value_le_bytes: "le_value (le_bytes n v) = v mod 256 ^ n"
proof (induction n arbitrary: v)
  case 0
  then show ?case by (simp add: le_bytes_def le_value_def)
next
  case (Suc n)
  have "le_value (le_bytes (Suc n) v) = v mod 256 + 256 * le_value (le_bytes n (v div 256))"
    by (simp add: le_bytes_Suc le_value_def)
  also have "\<dots> = v mod 256 + 256 * ((v div 256) mod 256 ^ n)"
    by (simp add: Suc.IH)
  also have "\<dots> = v mod 256 ^ Suc n"
    by (simp add: mod_mult2_eq)
  finally show ?case .
qed

lemma host_value_host_bytes: "host_value a (host_bytes a n v) = v mod 256 ^ n"
  by (simp add: host_value_def host_bytes_def le_value_le_bytes)

lemma length_host_bytes [simp]: "length (host_bytes a n v) = n"
  by (simp add: host_bytes_def)

lemma poke_length: "poke buf off bs = Some s \<Longrightarrow> length s = length buf"
  by (auto simp: poke_def split: if_splits)

lemma poke_nth:
  "poke buf off bs = Some s \<Longrightarrow> i < length buf \<Longrightarrow>
   s ! i = (if off \<le> i \<and> i < off + length bs then bs ! (i - off) else buf ! i)"
  by (auto simp: poke_def nth_append split: if_splits)

lemma peek_eq_nth:
  "peek buf off n = Some bs \<longleftrightarrow>
     off + n \<le> length buf \<and> length bs = n \<and> (\<forall>i<n. bs ! i = buf ! (off + i))"
  by (auto simp: peek_def list_eq_iff_nth_eq)

lemma abi_ok_linux: "abi_ok linux_x86_64"
  by (simp add: abi_ok_def linux_x86_64_def)

section \<open>Encoding and decoding UNIX addresses\<close>

text \<open>Every byte of the buffer \<^verbatim>\<open>Socket.sockaddr_un\<close> returns for a path that fits.\<close>

lemma sockaddr_un_nth:
  assumes ok: "abi_ok a" and len: "length path \<le> sun_path_size a - 1"
  shows "\<exists>s. mrb_socket_sockaddr_un a fresh path = (Return s, 1) \<and>
             length s = sizeof_sockaddr_un a \<and>
             (\<forall>i < sizeof_sockaddr_un a. s ! i =
                (if i = sun_path_offset a + length path then CHR 0x00
                 else if sun_path_offset a \<le> i \<and> i < sun_path_offset a + length path
                      then path ! (i - sun_path_offset a)
                 else if sa_family_offset a \<le> i \<and> i < sa_family_offset a + sa_family_size a
                      then host_bytes a (sa_family_size a) (AF_UNIX a) ! (i - sa_family_offset a)
                 else fresh i))"
proof -
  let ?s = "mrb_str_buf_new fresh (sizeof_sockaddr_un a)"
  have l0: "length ?s = sizeof_sockaddr_un a" by (simp add: mrb_str_buf_new_def)
  have b1: "sa_family_offset a + sa_family_size a \<le> sizeof_sockaddr_un a"
    and b2: "sun_path_offset a + length path + 1 \<le> sizeof_sockaddr_un a"
    using ok len by (auto simp: abi_ok_def)
  obtain s1 where
    p1: "poke ?s (sa_family_offset a) (host_bytes a (sa_family_size a) (AF_UNIX a)) = Some s1"
    using b1 l0 by (auto simp: poke_def)
  have l1: "length s1 = sizeof_sockaddr_un a" using poke_length [OF p1] l0 by simp
  obtain s2 where p2: "poke s1 (sun_path_offset a) path = Some s2"
    using b2 l1 by (auto simp: poke_def)
  have l2: "length s2 = sizeof_sockaddr_un a" using poke_length [OF p2] l1 by simp
  obtain s3 where p3: "poke s2 (sun_path_offset a + length path) [CHR 0x00] = Some s3"
    using b2 l2 by (auto simp: poke_def)
  have l3: "length s3 = sizeof_sockaddr_un a" using poke_length [OF p3] l2 by simp
  have r: "mrb_socket_sockaddr_un a fresh path = (Return s3, 1)"
    using len p1 p2 p3 by (simp add: mrb_socket_sockaddr_un_def Let_def)
  have n: "s3 ! i =
                (if i = sun_path_offset a + length path then CHR 0x00
                 else if sun_path_offset a \<le> i \<and> i < sun_path_offset a + length path
                      then path ! (i - sun_path_offset a)
                 else if sa_family_offset a \<le> i \<and> i < sa_family_offset a + sa_family_size a
                      then host_bytes a (sa_family_size a) (AF_UNIX a) ! (i - sa_family_offset a)
                 else fresh i)" if "i < sizeof_sockaddr_un a" for i
  proof -
    have "?s ! i = fresh i" using that by (simp add: mrb_str_buf_new_def)
    then show ?thesis
      using that poke_nth [OF p1, of i] poke_nth [OF p2, of i] poke_nth [OF p3, of i] l0 l1 l2
      by auto
  qed
  show ?thesis using r l3 n by blast
qed

lemma sockaddr_un_fields:
  assumes ok: "abi_ok a" and len: "length path \<le> sun_path_size a - 1"
  shows "\<exists>s. mrb_socket_sockaddr_un a fresh path = (Return s, 1) \<and>
             length s = sizeof_sockaddr_un a \<and>
             sa_family a s = Return (AF_UNIX a) \<and>
             peek s (sun_path_offset a) (length path + 1) = Some (path @ [CHR 0x00]) \<and>
             (\<forall>i < sizeof_sockaddr_un a. untouched a path i \<longrightarrow> s ! i = fresh i)"
proof -
  from sockaddr_un_nth [OF ok len, of fresh] obtain s where
    r: "mrb_socket_sockaddr_un a fresh path = (Return s, 1)" and
    l: "length s = sizeof_sockaddr_un a" and
    n: "\<And>i. i < sizeof_sockaddr_un a \<Longrightarrow> s ! i =
                (if i = sun_path_offset a + length path then CHR 0x00
                 else if sun_path_offset a \<le> i \<and> i < sun_path_offset a + length path
                      then path ! (i - sun_path_offset a)
                 else if sa_family_offset a \<le> i \<and> i < sa_family_offset a + sa_family_size a
                      then host_bytes a (sa_family_size a) (AF_UNIX a) ! (i - sa_family_offset a)
                 else fresh i)"
    by blast
  have b1: "sa_family_offset a + sa_family_size a \<le> sizeof_sockaddr_un a"
    and b2: "sun_path_offset a + length path + 1 \<le> sizeof_sockaddr_un a"
    and b3: "sa_family_offset a + sa_family_size a \<le> sun_path_offset a"
    and b4: "AF_UNIX a < 256 ^ sa_family_size a"
    using ok len by (auto simp: abi_ok_def)
  have fam: "peek s (sa_family_offset a) (sa_family_size a)
               = Some (host_bytes a (sa_family_size a) (AF_UNIX a))"
    unfolding peek_eq_nth using b1 b3 l n by auto
  have "sa_family a s = Return (AF_UNIX a)"
    using fam b4 by (simp add: sa_family_def host_value_host_bytes)
  moreover have "peek s (sun_path_offset a) (length path + 1) = Some (path @ [CHR 0x00])"
    unfolding peek_eq_nth using b2 l n by (auto simp: nth_append)
  moreover have "\<forall>i < sizeof_sockaddr_un a. untouched a path i \<longrightarrow> s ! i = fresh i"
    using n by (auto simp: untouched_def)
  ultimately show ?thesis using r l by blast
qed

lemma cstr_of_peek:
  assumes "peek buf off (length p + 1) = Some (p @ [CHR 0x00])" and "CHR 0x00 \<notin> set p"
  shows "mrb_str_new_cstr buf off = Return p"
proof -
  from assms(1) have le: "off + (length p + 1) \<le> length buf"
    and t: "take (length p + 1) (drop off buf) = p @ [CHR 0x00]"
    by (auto simp: peek_def split: if_splits)
  have d: "drop off buf = (p @ [CHR 0x00]) @ drop (length p + 1) (drop off buf)"
    using t append_take_drop_id [of "length p + 1" "drop off buf"] by simp
  have "CHR 0x00 \<in> set (drop off buf)"
    by (subst d) simp
  moreover have "takeWhile (\<lambda>c. c \<noteq> CHR 0x00) (drop off buf) = p"
    using assms(2) by (subst d) (auto simp: takeWhile_tail)
  ultimately show ?thesis using le by (simp add: mrb_str_new_cstr_def)
qed

text \<open>
  C2, as amended. For every path without a NUL byte whose length is below the capacity of
  \<^verbatim>\<open>sun_path\<close>, \<^verbatim>\<open>Socket.sockaddr_un\<close> returns a buffer of which
  \<^verbatim>\<open>Socket._sockaddr_family\<close> gives \<^verbatim>\<open>AF_UNIX\<close> and \<^verbatim>\<open>Addrinfo#unix_path\<close> gives the path.
\<close>

theorem unix_path_roundtrip:
  assumes "abi_ok a" and "length path < sun_path_size a" and "CHR 0x00 \<notin> set path"
  shows "\<exists>s. fst (mrb_socket_sockaddr_un a fresh path) = Return s \<and>
             mrb_socket_sockaddr_family a s = Return (AF_UNIX a) \<and>
             mrb_addrinfo_unix_path a s = Return path"
proof -
  have len: "length path \<le> sun_path_size a - 1" using assms(2) by simp
  from sockaddr_un_fields [OF assms(1) len, of fresh] obtain s where
    r: "mrb_socket_sockaddr_un a fresh path = (Return s, 1)" and
    l: "length s = sizeof_sockaddr_un a" and
    f: "sa_family a s = Return (AF_UNIX a)" and
    p: "peek s (sun_path_offset a) (length path + 1) = Some (path @ [CHR 0x00])"
    by blast
  have "sizeof_sockaddr a \<le> sizeof_sockaddr_un a" using assms(1) by (simp add: abi_ok_def)
  then have "mrb_socket_sockaddr_family a s = Return (AF_UNIX a)"
    using l f by (simp add: mrb_socket_sockaddr_family_def)
  moreover have "mrb_addrinfo_unix_path a s = Return path"
    using f cstr_of_peek [OF p assms(3)] by (simp add: mrb_addrinfo_unix_path_def)
  ultimately show ?thesis using r by simp
qed

theorem unix_path_roundtrip_witness:
  "abi_ok linux_x86_64 \<and> length ''/tmp/app.sock'' < sun_path_size linux_x86_64 \<and>
   CHR 0x00 \<notin> set ''/tmp/app.sock'' \<and>
   (\<exists>s. fst (mrb_socket_sockaddr_un linux_x86_64 stale_heap ''/tmp/app.sock'') = Return s \<and>
        mrb_socket_sockaddr_family linux_x86_64 s = Return (AF_UNIX linux_x86_64) \<and>
        mrb_addrinfo_unix_path linux_x86_64 s = Return ''/tmp/app.sock'')"
proof -
  have h1: "abi_ok linux_x86_64" by (rule abi_ok_linux)
  have h2: "length ''/tmp/app.sock'' < sun_path_size linux_x86_64"
    by (simp add: linux_x86_64_def)
  have h3: "CHR 0x00 \<notin> set ''/tmp/app.sock''" by simp
  show ?thesis using h1 h2 h3 unix_path_roundtrip [OF h1 h2 h3, of stale_heap] by blast
qed

text \<open>
  C2 as stated fails for a path with a NUL byte inside: the three bytes \<^verbatim>\<open>a\<close>, NUL,
  \<^verbatim>\<open>b\<close> are shorter than the capacity and are encoded, and \<^verbatim>\<open>Addrinfo#unix_path\<close> of the
  result is \<^verbatim>\<open>a\<close>.
\<close>

theorem unix_path_roundtrip_counterexample:
  "length [CHR ''a'', CHR 0x00, CHR ''b''] < sun_path_size linux_x86_64 \<and>
   then_do (fst (mrb_socket_sockaddr_un linux_x86_64 stale_heap [CHR ''a'', CHR 0x00, CHR ''b'']))
           (mrb_addrinfo_unix_path linux_x86_64) = Return ''a'' \<and>
   then_do (fst (mrb_socket_sockaddr_un linux_x86_64 stale_heap [CHR ''a'', CHR 0x00, CHR ''b'']))
           (mrb_addrinfo_unix_path linux_x86_64) \<noteq> Return [CHR ''a'', CHR 0x00, CHR ''b'']"
  by code_simp

text \<open>
  C3, as amended. \<^verbatim>\<open>Socket.sockaddr_un\<close> raises ArgumentError exactly when the path is
  longer than the capacity of \<^verbatim>\<open>sun_path\<close> minus one, and then it has allocated no buffer.
  For every other path it returns a buffer of \<^verbatim>\<open>sizeof(struct sockaddr_un)\<close> bytes whose
  family field is \<^verbatim>\<open>AF_UNIX\<close> and whose path field holds the path followed by a NUL byte;
  the bytes that belong to neither are the ones the fresh buffer held.
\<close>

theorem sockaddr_un_layout:
  assumes "abi_ok a"
  shows "if sun_path_size a - 1 < length path
         then mrb_socket_sockaddr_un a fresh path =
                (Raise (ArgumentError (''too long unix socket path (max: ''
                          @ decimal (sun_path_size a - 1) @ ''bytes)'')), 0)
         else \<exists>s. mrb_socket_sockaddr_un a fresh path = (Return s, 1) \<and>
                  length s = sizeof_sockaddr_un a \<and>
                  sa_family a s = Return (AF_UNIX a) \<and>
                  peek s (sun_path_offset a) (length path + 1) = Some (path @ [CHR 0x00]) \<and>
                  (\<forall>i < sizeof_sockaddr_un a. untouched a path i \<longrightarrow> s ! i = fresh i)"
proof (cases "sun_path_size a - 1 < length path")
  case True
  then show ?thesis by (simp add: mrb_socket_sockaddr_un_def)
next
  case False
  then have "length path \<le> sun_path_size a - 1" by simp
  from sockaddr_un_fields [OF assms this, of fresh] False show ?thesis by simp
qed

theorem sockaddr_un_layout_witness:
  "abi_ok linux_x86_64 \<and>
   \<not> sun_path_size linux_x86_64 - 1 < length ''/tmp/app.sock'' \<and>
   (\<exists>s. mrb_socket_sockaddr_un linux_x86_64 stale_heap ''/tmp/app.sock'' = (Return s, 1) \<and>
        length s = sizeof_sockaddr_un linux_x86_64 \<and>
        sa_family linux_x86_64 s = Return (AF_UNIX linux_x86_64) \<and>
        peek s (sun_path_offset linux_x86_64) (length ''/tmp/app.sock'' + 1)
          = Some (''/tmp/app.sock'' @ [CHR 0x00]) \<and>
        (\<forall>i < sizeof_sockaddr_un linux_x86_64.
            untouched linux_x86_64 ''/tmp/app.sock'' i \<longrightarrow> s ! i = stale_heap i))"
proof -
  have h1: "abi_ok linux_x86_64" by (rule abi_ok_linux)
  have h2: "\<not> sun_path_size linux_x86_64 - 1 < length ''/tmp/app.sock''"
    by (simp add: linux_x86_64_def)
  show ?thesis
    using h1 h2 sockaddr_un_layout [OF h1, of "''/tmp/app.sock''" stale_heap]
    by (simp only: if_False simp_thms)
qed

text \<open>
  C3 as stated fails where the fresh buffer is not zero: on a heap of \<^verbatim>\<open>0xFF\<close> bytes the
  buffer for the path \<^verbatim>\<open>a\<close> is the family, the path, the terminator and 106 bytes
  \<^verbatim>\<open>0xFF\<close>, which is not padded with zeros.
\<close>

theorem sockaddr_un_layout_counterexample:
  "fst (mrb_socket_sockaddr_un linux_x86_64 stale_heap ''a'')
     = Return (CHR 0x01 # CHR 0x00 # CHR ''a'' # CHR 0x00 # replicate 106 (CHR 0xFF)) \<and>
   \<not> zero_padded linux_x86_64 ''a''
       (CHR 0x01 # CHR 0x00 # CHR ''a'' # CHR 0x00 # replicate 106 (CHR 0xFF))"
  by code_simp

text \<open>
  C5 at the empty buffer, shorter than every address header. \<^verbatim>\<open>Addrinfo#unix_path\<close> reads
  the family field without looking at the length of \<^verbatim>\<open>@sockaddr\<close> and so reads behind its
  end, where \<^verbatim>\<open>Socket._sockaddr_family\<close> checks the length first and raises.
\<close>

theorem unix_path_reads_past_short_buffer:
  "mrb_addrinfo_unix_path linux_x86_64 [] = OutOfBounds \<and>
   mrb_socket_sockaddr_family linux_x86_64 [] = Raise (SocketError ''invalid sockaddr (too short)'')"
  by code_simp

section \<open>The resolver's cache\<close>

lemma release_lastai_empty: "cache_state st \<Longrightarrow> lastai (release_lastai st) = Nil"
  by (auto simp: cache_state_def release_lastai_def split: mrb_value.splits)

lemma release_lastai_freed:
  "lastai st = Voidp p \<Longrightarrow> freed (release_lastai st) = freed st @ [p]"
  by (simp add: release_lastai_def)

text \<open>
  \<^verbatim>\<open>_lastai\<close> is nil after initialisation and never anything but nil or a pointer.
\<close>

lemma cache_state_init: "cache_state mrb_mruby_socket_gem_init"
  by (simp add: cache_state_def mrb_mruby_socket_gem_init_def)

lemma cache_state_getaddrinfo:
  "cache_state st \<Longrightarrow>
   cache_state (snd (mrb_addrinfo_getaddrinfo getaddrinfo new st nodename service
                       family socktype protocol flags))"
  by (auto simp: mrb_addrinfo_getaddrinfo_def Let_def cache_state_def release_lastai_def
           split: outcome.splits mrb_value.splits)

lemma cache_state_final: "cache_state st \<Longrightarrow> cache_state (mrb_mruby_socket_gem_final st)"
  by (auto simp: mrb_mruby_socket_gem_final_def cache_state_def split: mrb_value.splits)

lemma getaddrinfo_os_failure:
  assumes "nodename_cstr nodename = Return hostname"
    and "servname_cstr service = Return servname"
    and "gai_status (getaddrinfo hostname servname (make_hints flags family socktype)) \<noteq> 0"
  shows "mrb_addrinfo_getaddrinfo getaddrinfo new st nodename service family socktype protocol flags
           = (Raise (SocketError ''getaddrinfo''), release_lastai st)"
  using assms by (simp add: mrb_addrinfo_getaddrinfo_def Let_def)

lemma getaddrinfo_success:
  assumes "mrb_addrinfo_getaddrinfo getaddrinfo new st nodename service family socktype protocol flags
             = (Return ary, st')"
  shows "\<exists>hostname servname.
           nodename_cstr nodename = Return hostname \<and>
           servname_cstr service = Return servname \<and>
           gai_status (getaddrinfo hostname servname (make_hints flags family socktype)) = 0 \<and>
           collect new (gai_list (getaddrinfo hostname servname (make_hints flags family socktype))) []
             = Return ary \<and>
           lastai st' = Nil \<and>
           freed st' = freed (release_lastai st)
                         @ [res0 (getaddrinfo hostname servname (make_hints flags family socktype))]"
  using assms
  by (auto simp: mrb_addrinfo_getaddrinfo_def Let_def split: outcome.splits if_splits)

text \<open>
  C1. Whenever \<^verbatim>\<open>Addrinfo.getaddrinfo\<close> returns, \<^verbatim>\<open>_lastai\<close> is nil and the list the resolver
  allocated is the last one freed; and whenever the arguments pass validation and the
  resolver reports a nonzero status, the call raises SocketError with \<^verbatim>\<open>_lastai\<close> nil.
\<close>

theorem resolve_leaves_cache_empty:
  assumes "cache_state st"
    and "mrb_addrinfo_getaddrinfo getaddrinfo new st nodename service family socktype protocol flags
           = (r, st')"
  shows "(\<forall>ary. r = Return ary \<longrightarrow>
            lastai st' = Nil \<and>
            (\<exists>hostname servname.
               freed st' = freed (release_lastai st)
                 @ [res0 (getaddrinfo hostname servname (make_hints flags family socktype))])) \<and>
         (\<forall>hostname servname.
            nodename_cstr nodename = Return hostname \<and> servname_cstr service = Return servname \<and>
            gai_status (getaddrinfo hostname servname (make_hints flags family socktype)) \<noteq> 0 \<longrightarrow>
            r = Raise (SocketError ''getaddrinfo'') \<and> lastai st' = Nil)"
proof (intro conjI allI impI)
  fix ary assume "r = Return ary"
  with assms(2) getaddrinfo_success [of getaddrinfo new st nodename service family socktype protocol flags ary st']
  show "lastai st' = Nil"
    and "\<exists>hostname servname.
           freed st' = freed (release_lastai st)
             @ [res0 (getaddrinfo hostname servname (make_hints flags family socktype))]"
    by blast+
next
  fix hostname servname
  assume h: "nodename_cstr nodename = Return hostname \<and> servname_cstr service = Return servname \<and>
            gai_status (getaddrinfo hostname servname (make_hints flags family socktype)) \<noteq> 0"
  then have "(r, st') = (Raise (SocketError ''getaddrinfo''), release_lastai st)"
    using getaddrinfo_os_failure [of nodename hostname service servname getaddrinfo flags family socktype new st protocol]
      assms(2) by simp
  then show "r = Raise (SocketError ''getaddrinfo'')" and "lastai st' = Nil"
    using release_lastai_empty [OF assms(1)] by simp_all
qed

lemma interrupted_fails:
  "mrb_addrinfo_getaddrinfo resolver_fails addrinfo_new interrupted
       (String ''localhost'') (String ''80'') Nil Nil Nil 0
     = (Raise (SocketError ''getaddrinfo''), \<lparr> lastai = Nil, freed = [7] \<rparr>)"
  by code_simp

lemma interrupted_finds:
  "mrb_addrinfo_getaddrinfo resolver_finds addrinfo_new interrupted
       (String ''localhost'') (Fixnum 80) (Fixnum 2) Nil Nil 0
     = (Return [(inet_sockaddr, 2, 1, 6)], \<lparr> lastai = Nil, freed = [7, 4096] \<rparr>)"
  by code_simp

lemma cache_state_interrupted: "cache_state interrupted"
  by (simp add: cache_state_def interrupted_def)

theorem resolve_leaves_cache_empty_witness:
  "cache_state interrupted \<and>
   mrb_addrinfo_getaddrinfo resolver_fails addrinfo_new interrupted
       (String ''localhost'') (String ''80'') Nil Nil Nil 0
     = (Raise (SocketError ''getaddrinfo''), \<lparr> lastai = Nil, freed = [7] \<rparr>) \<and>
   nodename_cstr (String ''localhost'' :: 32 word mrb_value) = Return (Some ''localhost'') \<and>
   servname_cstr (String ''80'' :: 32 word mrb_value) = Return (Some ''80'') \<and>
   gai_status (resolver_fails (Some ''localhost'') (Some ''80'')
                 (make_hints (0 :: 32 word) Nil Nil)) \<noteq> 0 \<and>
   lastai \<lparr> lastai = Nil :: 32 word mrb_value, freed = [7] \<rparr> = Nil \<and>
   fst (mrb_addrinfo_getaddrinfo resolver_finds addrinfo_new interrupted
          (String ''localhost'') (Fixnum 80) (Fixnum 2) Nil Nil 0)
     = Return [(inet_sockaddr, 2, 1, 6)] \<and>
   lastai (snd (mrb_addrinfo_getaddrinfo resolver_finds addrinfo_new interrupted
                  (String ''localhost'') (Fixnum 80) (Fixnum 2) Nil Nil 0)) = Nil"
proof -
  have h1: "cache_state interrupted" by (rule cache_state_interrupted)
  have h3: "nodename_cstr (String ''localhost'' :: 32 word mrb_value) = Return (Some ''localhost'')"
    by code_simp
  have h4: "servname_cstr (String ''80'' :: 32 word mrb_value) = Return (Some ''80'')"
    by code_simp
  have h5: "gai_status (resolver_fails (Some ''localhost'') (Some ''80'')
                 (make_hints (0 :: 32 word) Nil Nil)) \<noteq> 0"
    by (simp add: resolver_fails_def)
  have f: "lastai \<lparr> lastai = Nil :: 32 word mrb_value, freed = [7] \<rparr> = Nil"
    using h3 h4 h5 resolve_leaves_cache_empty [OF h1 interrupted_fails] by blast
  have s: "lastai \<lparr> lastai = Nil :: 32 word mrb_value, freed = [7, 4096] \<rparr> = Nil"
    using resolve_leaves_cache_empty [OF h1 interrupted_finds] by blast
  show ?thesis
    using h1 h3 h4 h5 f s interrupted_fails interrupted_finds by simp
qed

text \<open>
  C8 as stated fails: the kinds of the arguments are checked before the cache is looked at.
  With a list held from an interrupted call, a host name that is an integer raises the
  type error and the list is still held and not freed.
\<close>

theorem resolve_order_counterexample:
  "mrb_addrinfo_getaddrinfo resolver_finds addrinfo_new interrupted
       (Fixnum 1) (String ''80'') Nil Nil Nil 0
     = (Raise (TypeError ''nodename must be String or nil''), \<lparr> lastai = Voidp 7, freed = [] \<rparr>)"
  by code_simp

text \<open>
  C8, as amended. \<^verbatim>\<open>Addrinfo.getaddrinfo\<close> first validates its arguments: a host name
  that is neither text nor absent, or a service that is neither text, an integer nor absent,
  raises a type error and leaves the cache and the freed lists as they were. Only when both
  arguments have passed is a held list released, and it is released whatever the resolver
  then answers.
\<close>

theorem resolve_validates_then_releases:
  "(\<not> text_or_absent nodename \<longrightarrow>
      mrb_addrinfo_getaddrinfo getaddrinfo new st nodename service family socktype protocol flags
        = (Raise (TypeError ''nodename must be String or nil''), st)) \<and>
   (\<forall>hostname. nodename_cstr nodename = Return hostname \<and> \<not> text_number_or_absent service \<longrightarrow>
      mrb_addrinfo_getaddrinfo getaddrinfo new st nodename service family socktype protocol flags
        = (Raise (TypeError ''service must be String, Fixnum, or nil''), st)) \<and>
   (\<forall>hostname servname p.
      nodename_cstr nodename = Return hostname \<and> servname_cstr service = Return servname \<and>
      lastai st = Voidp p \<longrightarrow>
      (\<exists>rest. freed (snd (mrb_addrinfo_getaddrinfo getaddrinfo new st nodename service
                               family socktype protocol flags))
                = freed st @ p # rest))"
proof (intro conjI allI impI)
  assume "\<not> text_or_absent nodename"
  then show "mrb_addrinfo_getaddrinfo getaddrinfo new st nodename service family socktype protocol flags
              = (Raise (TypeError ''nodename must be String or nil''), st)"
    by (cases nodename)
       (simp_all add: text_or_absent_def mrb_addrinfo_getaddrinfo_def nodename_cstr_def)
next
  fix hostname
  assume "nodename_cstr nodename = Return hostname \<and> \<not> text_number_or_absent service"
  then show "mrb_addrinfo_getaddrinfo getaddrinfo new st nodename service family socktype protocol flags
              = (Raise (TypeError ''service must be String, Fixnum, or nil''), st)"
    by (cases service)
       (simp_all add: text_number_or_absent_def mrb_addrinfo_getaddrinfo_def servname_cstr_def)
next
  fix hostname servname p
  assume h: "nodename_cstr nodename = Return hostname \<and> servname_cstr service = Return servname \<and>
            lastai st = Voidp p"
  then have f: "freed (release_lastai st) = freed st @ [p]"
    by (simp add: release_lastai_freed)
  let ?reply = "getaddrinfo hostname servname (make_hints flags family socktype)"
  show "\<exists>rest. freed (snd (mrb_addrinfo_getaddrinfo getaddrinfo new st nodename service
                               family socktype protocol flags))
                = freed st @ p # rest"
  proof (cases "gai_status ?reply \<noteq> 0")
    case True
    then show ?thesis
      using h f by (simp add: mrb_addrinfo_getaddrinfo_def Let_def)
  next
    case False
    then show ?thesis
      using h f
      by (cases "collect new (gai_list ?reply) []")
         (simp_all add: mrb_addrinfo_getaddrinfo_def Let_def)
  qed
qed

theorem resolve_validates_then_releases_witness:
  "\<not> text_or_absent (Fixnum 1 :: 32 word mrb_value) \<and>
   mrb_addrinfo_getaddrinfo resolver_finds addrinfo_new interrupted
       (Fixnum 1) (String ''80'') Nil Nil Nil 0
     = (Raise (TypeError ''nodename must be String or nil''), interrupted) \<and>
   nodename_cstr (String ''localhost'' :: 32 word mrb_value) = Return (Some ''localhost'') \<and>
   \<not> text_number_or_absent (TrueV :: 32 word mrb_value) \<and>
   mrb_addrinfo_getaddrinfo resolver_finds addrinfo_new interrupted
       (String ''localhost'') TrueV Nil Nil Nil 0
     = (Raise (TypeError ''service must be String, Fixnum, or nil''), interrupted) \<and>
   servname_cstr (String ''80'' :: 32 word mrb_value) = Return (Some ''80'') \<and>
   lastai interrupted = Voidp 7 \<and>
   (\<exists>rest. freed (snd (mrb_addrinfo_getaddrinfo resolver_finds addrinfo_new interrupted
                         (String ''localhost'') (String ''80'') Nil Nil Nil 0))
            = freed interrupted @ 7 # rest)"
proof -
  have h1: "\<not> text_or_absent (Fixnum 1 :: 32 word mrb_value)"
    by (simp add: text_or_absent_def)
  have h2: "nodename_cstr (String ''localhost'' :: 32 word mrb_value) = Return (Some ''localhost'')"
    by code_simp
  have h3: "\<not> text_number_or_absent (TrueV :: 32 word mrb_value)"
    by (simp add: text_number_or_absent_def)
  have h4: "servname_cstr (String ''80'' :: 32 word mrb_value) = Return (Some ''80'')"
    by code_simp
  have h5: "lastai interrupted = Voidp 7" by (simp add: interrupted_def)
  have a: "mrb_addrinfo_getaddrinfo resolver_finds addrinfo_new interrupted
       (Fixnum 1) (String ''80'') Nil Nil Nil 0
     = (Raise (TypeError ''nodename must be String or nil''), interrupted)"
    using resolve_validates_then_releases
            [where st = interrupted and nodename = "Fixnum 1", THEN conjunct1] h1
    by blast
  have b: "mrb_addrinfo_getaddrinfo resolver_finds addrinfo_new interrupted
       (String ''localhost'') TrueV Nil Nil Nil 0
     = (Raise (TypeError ''service must be String, Fixnum, or nil''), interrupted)"
    using resolve_validates_then_releases
            [where st = interrupted and nodename = "String ''localhost''" and service = TrueV,
             THEN conjunct2, THEN conjunct1] h2 h3
    by blast
  have c: "\<exists>rest. freed (snd (mrb_addrinfo_getaddrinfo resolver_finds addrinfo_new interrupted
                         (String ''localhost'') (String ''80'') Nil Nil Nil 0))
            = freed interrupted @ 7 # rest"
    using resolve_validates_then_releases
            [where st = interrupted and nodename = "String ''localhost''"
               and service = "String ''80''", THEN conjunct2, THEN conjunct2] h2 h4 h5
    by blast
  show ?thesis using h1 h2 h3 h4 h5 a b c by blast
qed

text \<open>
  C9 at a held list and two runs of the finalizer. \<^verbatim>\<open>mrb_mruby_socket_gem_final\<close> frees a
  held list and does nothing on an empty cache, but it leaves the pointer in \<^verbatim>\<open>_lastai\<close>,
  where both places of \<^verbatim>\<open>Addrinfo.getaddrinfo\<close> that free a list set the variable to nil.
  A second run therefore frees the same list again.
\<close>

theorem teardown_twice_frees_twice:
  "mrb_mruby_socket_gem_final (mrb_mruby_socket_gem_init :: 32 word interp)
     = mrb_mruby_socket_gem_init \<and>
   mrb_mruby_socket_gem_final interrupted = \<lparr> lastai = Voidp 7, freed = [7] \<rparr> \<and>
   mrb_mruby_socket_gem_final (mrb_mruby_socket_gem_final interrupted)
     = \<lparr> lastai = Voidp 7, freed = [7, 7] \<rparr>"
  by code_simp

section \<open>Socket options\<close>

lemma char_of_nat_eq: "char_of (n::nat) = c \<longleftrightarrow> n mod 256 = of_char c"
  by (simp add: char_of_eq_iff take_bit_eq_mod)

text \<open>
  C10. When \<^verbatim>\<open>getsockopt\<close> has succeeded and \<^verbatim>\<open>getsockname\<close> fails,
  \<^verbatim>\<open>BasicSocket#getsockopt\<close> does not raise: it returns the option with the family
  \<^verbatim>\<open>AF_UNSPEC\<close>, the level and name asked for and the bytes of the value read.
\<close>

theorem getsockopt_family_fallback:
  assumes "fst (sys_getsockopt k s (sint level) (sint optname)) \<noteq> - 1"
    and "fst (sys_getsockname k s) = - 1"
  shows "mrb_basicsocket_getsockopt a k s level optname
           = Return (SockOpt (of_nat (AF_UNSPEC a)) level optname
                       (int_bytes a (sizeof_int a)
                          (snd (sys_getsockopt k s (sint level) (sint optname)))))"
  using assms
  by (cases "sys_getsockopt k s (sint level) (sint optname)"; cases "sys_getsockname k s")
     (simp add: mrb_basicsocket_getsockopt_def socket_family_def Let_def)

theorem getsockopt_family_fallback_witness:
  "fst (sys_getsockopt unnamed_socket_kernel 3 (sint (1 :: 32 word)) (sint (2 :: 32 word))) \<noteq> - 1 \<and>
   fst (sys_getsockname unnamed_socket_kernel 3) = - 1 \<and>
   mrb_basicsocket_getsockopt linux_x86_64 unnamed_socket_kernel 3 (1 :: 32 word) 2
     = Return (SockOpt 0 1 2 [CHR 0x01, CHR 0x00, CHR 0x00, CHR 0x00])"
proof -
  have h1: "fst (sys_getsockopt unnamed_socket_kernel 3 (sint (1 :: 32 word)) (sint (2 :: 32 word)))
              \<noteq> - 1"
    by (simp add: unnamed_socket_kernel_def)
  have h2: "fst (sys_getsockname unnamed_socket_kernel 3) = - 1"
    by (simp add: unnamed_socket_kernel_def)
  have v: "int_bytes linux_x86_64 (sizeof_int linux_x86_64) 1
             = [CHR 0x01, CHR 0x00, CHR 0x00, CHR 0x00]"
    by (simp add: int_bytes_def host_bytes_def le_bytes_def linux_x86_64_def upt_conv_Cons
                  char_of_nat_eq)
  have k: "snd (sys_getsockopt unnamed_socket_kernel 3 (sint (1 :: 32 word)) (sint (2 :: 32 word)))
             = 1"
    by (simp add: unnamed_socket_kernel_def)
  have u: "(of_nat (AF_UNSPEC linux_x86_64) :: 32 word) = 0"
    by (simp add: linux_x86_64_def)
  show ?thesis
    using h1 h2 getsockopt_family_fallback [OF h1 h2, of linux_x86_64]
    by (simp only: v k u simp_thms)
qed




section \<open>Numeric decoding\<close>

lemma ntohs_host_value: "ntohs a (host_value a [p0, p1]) = 256 * of_char p0 + of_char p1"
proof -
  have "(of_char p0 :: nat) < 256" and "(of_char p1 :: nat) < 256" by simp_all
  then show ?thesis
    by (simp add: ntohs_def host_value_def le_value_def)
qed

text \<open>
  C7. \<^verbatim>\<open>sa2addrlist\<close> raises \<^verbatim>\<open>bad af\<close> for every family other than \<^verbatim>\<open>AF_INET\<close> and
  \<^verbatim>\<open>AF_INET6\<close>. For these two the port it returns is the number whose high byte is the
  first and whose low byte is the second byte of the port field, and the host is the name
  \<^verbatim>\<open>getnameinfo\<close> writes when called with the flags \<^verbatim>\<open>NI_NUMERICHOST\<close>.
\<close>

theorem sa2addrlist_decodes:
  assumes "sa_family a sa = Return f"
  shows "(f \<noteq> AF_INET a \<and> f \<noteq> AF_INET6 a \<longrightarrow>
            (sa2addrlist a L fresh sa salen :: 'w::len word mrb_value list outcome)
              = Raise (ArgumentError ''bad af'')) \<and>
         (\<forall>p0 p1 host.
            (f = AF_INET a \<or> f = AF_INET6 a) \<and>
            peek sa (if f = AF_INET a then sin_port_offset a else sin6_port_offset a) 2
              = Some [p0, p1] \<and>
            fst (getnameinfo L sa salen (mrb_str_buf_new fresh (NI_MAXHOST a)) (NI_NUMERICHOST a))
              \<noteq> - 1 \<and>
            mrb_str_new_cstr
              (snd (getnameinfo L sa salen (mrb_str_buf_new fresh (NI_MAXHOST a)) (NI_NUMERICHOST a)))
              0 = Return host \<longrightarrow>
            (sa2addrlist a L fresh sa salen :: 'w word mrb_value list outcome)
              = Return [String (if f = AF_INET a then ''AF_INET'' else ''AF_INET6''),
                        Fixnum (of_nat (256 * of_char p0 + of_char p1)),
                        String host, String host])"
  using assms
  by (auto simp: sa2addrlist_def Let_def ntohs_host_value)

theorem sa2addrlist_decodes_witness:
  "sa_family linux_x86_64 unix_sockaddr = Return 1 \<and>
   (1 :: nat) \<noteq> AF_INET linux_x86_64 \<and> (1 :: nat) \<noteq> AF_INET6 linux_x86_64 \<and>
   (sa2addrlist linux_x86_64 bsd_libc stale_heap unix_sockaddr 16 :: 32 word mrb_value list outcome)
     = Raise (ArgumentError ''bad af'') \<and>
   sa_family linux_x86_64 inet_sockaddr = Return 2 \<and>
   (2 :: nat) = AF_INET linux_x86_64 \<and>
   peek inet_sockaddr (sin_port_offset linux_x86_64) 2 = Some [CHR 0x00, CHR 0x50] \<and>
   (sa2addrlist linux_x86_64 bsd_libc stale_heap inet_sockaddr 16 :: 32 word mrb_value list outcome)
     = Return [String ''AF_INET'', Fixnum 80, String ''192.0.2.1'', String ''192.0.2.1'']"
proof -
  have u1: "sa_family linux_x86_64 unix_sockaddr = Return 1" by code_simp
  have u2: "(1 :: nat) \<noteq> AF_INET linux_x86_64 \<and> (1 :: nat) \<noteq> AF_INET6 linux_x86_64"
    by (simp add: linux_x86_64_def)
  have i1: "sa_family linux_x86_64 inet_sockaddr = Return 2" by code_simp
  have i2: "(2 :: nat) = AF_INET linux_x86_64" by (simp add: linux_x86_64_def)
  have i3: "peek inet_sockaddr (if (2 :: nat) = AF_INET linux_x86_64
                                 then sin_port_offset linux_x86_64
                                 else sin6_port_offset linux_x86_64) 2
              = Some [CHR 0x00, CHR 0x50]"
    by code_simp
  have i4: "fst (getnameinfo bsd_libc inet_sockaddr 16
                   (mrb_str_buf_new stale_heap (NI_MAXHOST linux_x86_64))
                   (NI_NUMERICHOST linux_x86_64)) \<noteq> - 1"
    by (simp add: bsd_libc_def)
  have i5: "mrb_str_new_cstr
              (snd (getnameinfo bsd_libc inet_sockaddr 16
                      (mrb_str_buf_new stale_heap (NI_MAXHOST linux_x86_64))
                      (NI_NUMERICHOST linux_x86_64))) 0 = Return ''192.0.2.1''"
    by (simp add: bsd_libc_def mrb_str_new_cstr_def)
  have p: "peek inet_sockaddr (sin_port_offset linux_x86_64) 2 = Some [CHR 0x00, CHR 0x50]"
    by code_simp
  have a: "(sa2addrlist linux_x86_64 bsd_libc stale_heap unix_sockaddr 16
              :: 32 word mrb_value list outcome) = Raise (ArgumentError ''bad af'')"
    using sa2addrlist_decodes [OF u1, THEN conjunct1] u2 by blast
  have "(sa2addrlist linux_x86_64 bsd_libc stale_heap inet_sockaddr 16
              :: 32 word mrb_value list outcome)
          = Return [String (if (2 :: nat) = AF_INET linux_x86_64 then ''AF_INET'' else ''AF_INET6''),
                    Fixnum (of_nat (256 * of_char (CHR 0x00) + of_char (CHR 0x50))),
                    String ''192.0.2.1'', String ''192.0.2.1'']"
    using sa2addrlist_decodes [OF i1, THEN conjunct2, rule_format,
            of "CHR 0x00" "CHR 0x50" bsd_libc 16 stale_heap "''192.0.2.1''"]
          i2 i3 i4 i5 by blast
  then have b: "(sa2addrlist linux_x86_64 bsd_libc stale_heap inet_sockaddr 16
              :: 32 word mrb_value list outcome)
          = Return [String ''AF_INET'', Fixnum 80, String ''192.0.2.1'', String ''192.0.2.1'']"
    using i2 by simp
  show ?thesis using u1 u2 i1 i2 p a b by blast
qed

section \<open>Presentation form of IP addresses\<close>

lemma decimal_digits: "n < 256 \<Longrightarrow> set (decimal n) \<subseteq> char_of ` {48 ..< 58 :: nat}"
proof (induction n rule: decimal.induct)
  case (1 n)
  show ?case
  proof (cases "n < 10")
    case True
    then show ?thesis by (subst decimal.simps) auto
  next
    case False
    have "n mod 10 < 10" by simp
    then have "char_of (48 + n mod 10) \<in> char_of ` {48 ..< 58 :: nat}" by auto
    moreover have "set (decimal (n div 10)) \<subseteq> char_of ` {48 ..< 58 :: nat}"
      using "1.IH" False "1.prems" by simp
    ultimately show ?thesis using False by (subst decimal.simps) auto
  qed
qed

lemma decimal_length: "n < 1000 \<Longrightarrow> length (decimal n) \<le> 3"
  by (subst decimal.simps, subst decimal.simps, subst decimal.simps) auto

lemma digit_not_NUL: "c \<in> char_of ` {48 ..< 58 :: nat} \<Longrightarrow> c \<noteq> CHR 0x00"
proof
  assume "c \<in> char_of ` {48 ..< 58 :: nat}" and "c = CHR 0x00"
  then obtain d :: nat where "48 \<le> d" and "d < 58" and "char_of d = CHR 0x00" by auto
  then show False by (simp add: char_of_nat_eq)
qed

text \<open>The scanner reads the decimal digits of an octet back as the octet.\<close>

lemma scan_digit:
  assumes "(of_char ch :: nat) = 48 + d" and "d \<le> 9" and "cur * 10 + d \<le> 255"
    and "saw \<longrightarrow> cur \<noteq> 0" and "length tmp \<le> 3"
  shows "inet_pton4_scan (ch # rest) tmp cur saw = inet_pton4_scan rest tmp (cur * 10 + d) True"
  using assms by (auto simp: Let_def)

lemma scan_decimal:
  "n < 256 \<Longrightarrow> length tmp \<le> 3 \<Longrightarrow>
   inet_pton4_scan (decimal n @ rest) tmp 0 False = inet_pton4_scan rest tmp n True"
proof (induction n arbitrary: rest rule: decimal.induct)
  case (1 n)
  define ch where "ch = char_of (48 + n mod 10)"
  have m: "n mod 10 \<le> 9" by simp
  then have "48 + n mod 10 < 256" by linarith
  then have c: "(of_char ch :: nat) = 48 + n mod 10" by (simp add: ch_def)
  show ?case
  proof (cases "n < 10")
    case True
    then have d: "decimal n = [ch]" by (subst decimal.simps) (simp add: ch_def)
    have "inet_pton4_scan (ch # rest) tmp 0 False
            = inet_pton4_scan rest tmp (0 * 10 + n mod 10) True"
      using c m "1.prems" by (intro scan_digit) simp_all
    then show ?thesis using True by (simp add: d)
  next
    case False
    then have d: "decimal n = decimal (n div 10) @ [ch]"
      by (subst decimal.simps) (simp add: ch_def)
    have "inet_pton4_scan (decimal n @ rest) tmp 0 False
            = inet_pton4_scan (ch # rest) tmp (n div 10) True"
      using "1.IH" [of "ch # rest"] False "1.prems" by (simp add: d)
    also have "\<dots> = inet_pton4_scan rest tmp (n div 10 * 10 + n mod 10) True"
      using c m False "1.prems" by (intro scan_digit) simp_all
    finally show ?thesis by simp
  qed
qed

lemma scan_dot:
  "length tmp < 3 \<Longrightarrow>
   inet_pton4_scan (CHR ''.'' # rest) tmp n True = inet_pton4_scan rest (tmp @ [n]) 0 False"
  by simp

lemma inet_pton4_scan_inet_ntop4:
  "inet_pton4_scan (inet_ntop4 [b0, b1, b2, b3]) [] 0 False
     = Some [of_char b0, of_char b1, of_char b2, of_char b3]"
proof -
  let ?n0 = "of_char b0 :: nat" and ?n1 = "of_char b1 :: nat"
  and ?n2 = "of_char b2 :: nat" and ?n3 = "of_char b3 :: nat"
  have "inet_pton4_scan (inet_ntop4 [b0, b1, b2, b3]) [] 0 False
          = inet_pton4_scan (decimal ?n0 @ CHR ''.'' # decimal ?n1 @ CHR ''.'' #
                              decimal ?n2 @ CHR ''.'' # decimal ?n3 @ []) [] 0 False"
    by simp
  also have "\<dots> = inet_pton4_scan (decimal ?n1 @ CHR ''.'' # decimal ?n2 @ CHR ''.'' #
                                    decimal ?n3 @ []) [?n0] 0 False"
    by (simp add: scan_decimal scan_dot del: inet_pton4_scan.simps)
  also have "\<dots> = inet_pton4_scan (decimal ?n2 @ CHR ''.'' # decimal ?n3 @ []) [?n0, ?n1] 0 False"
    by (simp add: scan_decimal scan_dot del: inet_pton4_scan.simps)
  also have "\<dots> = inet_pton4_scan (decimal ?n3 @ []) [?n0, ?n1, ?n2] 0 False"
    by (simp add: scan_decimal scan_dot del: inet_pton4_scan.simps)
  also have "\<dots> = inet_pton4_scan [] [?n0, ?n1, ?n2] ?n3 True"
    by (rule scan_decimal) simp_all
  also have "\<dots> = Some [?n0, ?n1, ?n2, ?n3]"
    by simp
  finally show ?thesis .
qed

lemma inet_pton4_inet_ntop4:
  "inet_pton4 (inet_ntop4 [b0, b1, b2, b3]) = Some [b0, b1, b2, b3]"
  by (simp add: inet_pton4_def inet_pton4_scan_inet_ntop4 del: inet_ntop4.simps)

lemma inet_ntop4_text:
  "length (inet_ntop4 [b0, b1, b2, b3]) \<le> 15 \<and> CHR 0x00 \<notin> set (inet_ntop4 [b0, b1, b2, b3])"
proof -
  have l: "length (decimal (of_char b)) \<le> 3" for b :: char
    by (rule decimal_length) (simp add: order_less_trans [OF nat_of_char_less_256])
  have z: "CHR 0x00 \<notin> set (decimal (of_char b))" for b :: char
    using decimal_digits [of "of_char b"] digit_not_NUL by auto
  show ?thesis
    using l [of b0] l [of b1] l [of b2] l [of b3] z [of b0] z [of b1] z [of b2] z [of b3]
    by simp
qed

lemma c_str_terminated: "CHR 0x00 \<notin> set t \<Longrightarrow> c_str (t @ [CHR 0x00]) = t"
  by (auto simp: c_str_def takeWhile_tail)

lemma c_str_free: "CHR 0x00 \<notin> set (c_str t)"
  unfolding c_str_def by (induction t) auto

lemma four_bytes: "length bytes = 4 \<Longrightarrow> \<exists>b0 b1 b2 b3. bytes = [b0, b1, b2, b3]"
  by (cases bytes; simp; rename_tac b0 t0; case_tac t0; simp; rename_tac b1 t1; case_tac t1; simp;
      rename_tac b2 t2; case_tac t2; simp)

lemma ntop_pton_inet:
  assumes ok: "abi_ok a" and "length bytes = 4"
  shows "then_do (mrb_ipsocket_ntop a L (int (AF_INET a)) bytes)
                 (mrb_ipsocket_pton a L (int (AF_INET a))) = Return bytes"
proof -
  from four_bytes [OF assms(2)] obtain b0 b1 b2 b3 where b: "bytes = [b0, b1, b2, b3]" by blast
  have ne: "AF_INET a \<noteq> AF_INET6 a" using ok by (auto simp: abi_ok_def)
  let ?t = "inet_ntop4 [b0, b1, b2, b3]"
  have t: "length ?t \<le> 15" "CHR 0x00 \<notin> set ?t" using inet_ntop4_text by blast+
  have n: "mrb_ipsocket_ntop a L (int (AF_INET a)) bytes = Return ?t"
    using t(1) ne by (simp add: b mrb_ipsocket_ntop_def inet_ntop_def peek_def del: inet_ntop4.simps)
  have p: "mrb_ipsocket_pton a L (int (AF_INET a)) ?t = Return bytes"
    using t by (simp add: b mrb_ipsocket_pton_def c_str_terminated inet_pton4_inet_ntop4
                     del: inet_ntop4.simps)
  show ?thesis by (simp add: n p then_do_def del: inet_ntop4.simps)
qed

lemma ntop_pton_inet6:
  assumes ok: "abi_ok a" and len: "length bytes = 16" and rb: "inet6_text_reads_back L bytes"
  shows "then_do (mrb_ipsocket_ntop a L (int (AF_INET6 a)) bytes)
                 (mrb_ipsocket_pton a L (int (AF_INET6 a))) = Return bytes"
proof -
  have ne: "AF_INET6 a \<noteq> AF_INET a" using ok by (auto simp: abi_ok_def)
  from rb obtain t where t: "inet_ntop6 L bytes = Some t" "length (c_str t) < 46"
    "inet_pton6 L (c_str t) = Some bytes"
    by (auto simp: inet6_text_reads_back_def split: option.splits)
  have n: "mrb_ipsocket_ntop a L (int (AF_INET6 a)) bytes = Return (c_str t)"
    using ne len t by (simp add: mrb_ipsocket_ntop_def inet_ntop_def peek_def)
  have p: "mrb_ipsocket_pton a L (int (AF_INET6 a)) (c_str t) = Return bytes"
    using ne t by (simp add: mrb_ipsocket_pton_def c_str_terminated c_str_free)
  show ?thesis by (simp add: n p then_do_def)
qed

section \<open>The AF_INET6 text form reads back\<close>

lemma xdigit_val_hex_digit: "d < 16 \<Longrightarrow> xdigit_val (hex_digit d) = Some d"
proof -
  assume d: "d < 16"
  show ?thesis
  proof (cases "d < 10")
    case True
    then have "(of_char (char_of (48 + d)) :: nat) = 48 + d" by simp
    then show ?thesis using True by (simp add: xdigit_val_def hex_digit_def Let_def)
  next
    case False
    then have "(of_char (char_of (87 + d)) :: nat) = 87 + d" using d by simp
    then show ?thesis using False d by (simp add: xdigit_val_def hex_digit_def Let_def)
  qed
qed

lemma hex_not_empty: "hex w \<noteq> []"
  by (subst hex.simps) simp

lemma scan_hex_digit:
  assumes "d < 16" and "val * 16 + d \<le> 0xffff"
  shows "pton6_scan (hex_digit d # rest) g colonp tok saw val
           = pton6_scan rest g colonp tok True (val * 16 + d)"
  using assms by (simp add: xdigit_val_hex_digit)

text \<open>The scanner reads the hexadecimal digits of a word back as the word.\<close>

lemma scan_hex:
  "w \<le> 0xffff \<Longrightarrow>
   pton6_scan (hex w @ rest) g colonp tok saw 0 = pton6_scan rest g colonp tok True w"
proof (induction w arbitrary: rest saw rule: hex.induct)
  case (1 w)
  show ?case
  proof (cases "w < 16")
    case True
    then have "hex w = [hex_digit w]" by (subst hex.simps) simp
    then show ?thesis using True scan_hex_digit [of w 0 rest g colonp tok saw] by simp
  next
    case False
    then have h: "hex w = hex (w div 16) @ [hex_digit (w mod 16)]" by (subst hex.simps) simp
    have "pton6_scan (hex w @ rest) g colonp tok saw 0
            = pton6_scan (hex_digit (w mod 16) # rest) g colonp tok True (w div 16)"
      using "1.IH" [of "hex_digit (w mod 16) # rest" saw] False "1.prems" by (simp add: h)
    also have "\<dots> = pton6_scan rest g colonp tok True (w div 16 * 16 + w mod 16)"
      using "1.prems" by (intro scan_hex_digit) simp_all
    finally show ?thesis by simp
  qed
qed

lemma scan_colon_store:
  "rest \<noteq> [] \<Longrightarrow> length g < 8 \<Longrightarrow>
   pton6_scan (CHR '':'' # rest) g colonp tok True val = pton6_scan rest (g @ [val]) colonp rest False 0"
  by (simp add: xdigit_val_def)

lemma scan_colon_gap:
  "pton6_scan (CHR '':'' # rest) g None tok False val
     = pton6_scan rest g (Some (length g)) rest False val"
  by (simp add: xdigit_val_def)

text \<open>
  A colon-separated list of words is read into the store; the last word is still pending
  when the text behind the list begins.
\<close>

lemma scan_colon_hex:
  "ws \<noteq> [] \<Longrightarrow> \<forall>w \<in> set ws. w \<le> 0xffff \<Longrightarrow> length g + length ws \<le> 8 \<Longrightarrow>
   \<exists>tok'. pton6_scan (colon_hex ws @ rest) g colonp tok saw 0
            = pton6_scan rest (g @ butlast ws) colonp tok' True (last ws)"
proof (induction ws arbitrary: g tok saw rule: colon_hex.induct)
  case 1
  then show ?case by simp
next
  case (2 w)
  then show ?case using scan_hex [of w rest g colonp tok saw] by auto
next
  case (3 w v vs)
  have "pton6_scan (colon_hex (w # v # vs) @ rest) g colonp tok saw 0
          = pton6_scan (CHR '':'' # colon_hex (v # vs) @ rest) g colonp tok True w"
    using "3.prems" scan_hex [of w "CHR '':'' # colon_hex (v # vs) @ rest" g colonp tok saw]
    by simp
  also have "\<dots> = pton6_scan (colon_hex (v # vs) @ rest) (g @ [w]) colonp
                     (colon_hex (v # vs) @ rest) False 0"
    using "3.prems" hex_not_empty [of v]
    by (intro scan_colon_store) (cases vs; simp)+
  finally have a: "pton6_scan (colon_hex (w # v # vs) @ rest) g colonp tok saw 0
          = pton6_scan (colon_hex (v # vs) @ rest) (g @ [w]) colonp
                     (colon_hex (v # vs) @ rest) False 0" .
  from "3.IH" [of "g @ [w]" "colon_hex (v # vs) @ rest" False] "3.prems"
  obtain tok' where "pton6_scan (colon_hex (v # vs) @ rest) (g @ [w]) colonp
                       (colon_hex (v # vs) @ rest) False 0
                     = pton6_scan rest ((g @ [w]) @ butlast (v # vs)) colonp tok' True (last (v # vs))"
    by auto
  with a show ?case by auto
qed

lemma hex_digit_not_colon: "d < 16 \<Longrightarrow> hex_digit d \<noteq> CHR '':''"
  using xdigit_val_hex_digit [of d] by (auto simp: xdigit_val_def)

lemma hex_first: "\<exists>d t. d < 16 \<and> hex w = hex_digit d # t"
proof (induction w rule: hex.induct)
  case (1 w)
  show ?case
  proof (cases "w < 16")
    case True
    then show ?thesis by (subst hex.simps) auto
  next
    case False
    with "1.IH" obtain d t where "d < 16" and "hex (w div 16) = hex_digit d # t" by auto
    then show ?thesis using False by (subst hex.simps) auto
  qed
qed

lemma colon_hex_first: "ws \<noteq> [] \<Longrightarrow> \<exists>d t. d < 16 \<and> colon_hex ws = hex_digit d # t"
proof (induction ws rule: colon_hex.induct)
  case 1
  then show ?case by simp
next
  case (2 w)
  then show ?case using hex_first [of w] by simp
next
  case (3 w v vs)
  from hex_first [of w] obtain d t where "d < 16" and "hex w = hex_digit d # t" by auto
  then show ?case by auto
qed

lemma pton6_words_plain:
  "src = hex_digit d # t \<Longrightarrow> d < 16 \<Longrightarrow> pton6_words src = pton6_scan src [] None src False 0"
  using hex_digit_not_colon [of d] by (simp add: pton6_words_def)

lemma pton6_words_gap:
  "pton6_words (CHR '':'' # CHR '':'' # rest) = pton6_scan rest [] (Some 0) rest False 0"
  by (simp add: pton6_words_def xdigit_val_def)

text \<open>Eight words without a gap.\<close>

lemma words_colon_hex:
  assumes "length ws = 8" and "\<forall>w \<in> set ws. w \<le> 0xffff"
  shows "pton6_words (colon_hex ws) = Some ws"
proof -
  have ne: "ws \<noteq> []" using assms(1) by auto
  from colon_hex_first [OF ne] obtain d t where d: "d < 16" "colon_hex ws = hex_digit d # t"
    by auto
  from scan_colon_hex [OF ne assms(2), of "[]" "[]" None "colon_hex ws" False] assms(1)
  obtain tok' where "pton6_scan (colon_hex ws) [] None (colon_hex ws) False 0
                       = pton6_scan [] (butlast ws) None tok' True (last ws)"
    by auto
  then have "pton6_scan (colon_hex ws) [] None (colon_hex ws) False 0 = Some ws"
    using ne assms(1) by (simp add: pton6_finish_def)
  then show ?thesis using pton6_words_plain [OF d(2) d(1)] by simp
qed

text \<open>The scan of the words behind a gap, to the end of the text.\<close>

lemma scan_after_gap:
  assumes "\<forall>w \<in> set suf. w \<le> 0xffff" and "length g + length suf < 8" and "c \<le> length g"
  shows "pton6_scan (colon_hex suf) g (Some c) tok False 0
           = Some (take c g @ replicate (8 - length g - length suf) 0 @ drop c g @ suf)"
proof (cases "suf = []")
  case True
  then show ?thesis using assms by (simp add: pton6_finish_def)
next
  case False
  from scan_colon_hex [OF False assms(1), of g "[]" "Some c" tok False] assms(2)
  obtain tok' where "pton6_scan (colon_hex suf) g (Some c) tok False 0
                       = pton6_scan [] (g @ butlast suf) (Some c) tok' True (last suf)"
    by auto
  moreover have "(g @ butlast suf) @ [last suf] = g @ suf" using False by simp
  ultimately show ?thesis
    using assms False by (simp add: pton6_finish_def Let_def)
qed

text \<open>Words, a gap, words.\<close>

lemma words_gap:
  assumes "\<forall>w \<in> set pre. w \<le> 0xffff" and "\<forall>w \<in> set suf. w \<le> 0xffff"
    and "length pre + length suf < 8"
  shows "pton6_words (colon_hex pre @ CHR '':'' # CHR '':'' # colon_hex suf)
           = Some (pre @ replicate (8 - length pre - length suf) 0 @ suf)"
proof (cases "pre = []")
  case True
  then show ?thesis
    using scan_after_gap [OF assms(2), of "[]" 0 "colon_hex suf"] assms(3)
    by (simp add: pton6_words_gap)
next
  case False
  let ?rest = "CHR '':'' # CHR '':'' # colon_hex suf"
  let ?src = "colon_hex pre @ ?rest"
  from colon_hex_first [OF False] obtain d t where d: "d < 16" "colon_hex pre = hex_digit d # t"
    by auto
  then have s: "?src = hex_digit d # (t @ ?rest)" by simp
  from scan_colon_hex [OF False assms(1), of "[]" ?rest None ?src False] assms(3)
  obtain tok' where "pton6_scan ?src [] None ?src False 0
                       = pton6_scan ?rest (butlast pre) None tok' True (last pre)"
    by auto
  also have "\<dots> = pton6_scan (CHR '':'' # colon_hex suf) (butlast pre @ [last pre]) None
                     (CHR '':'' # colon_hex suf) False 0"
    using assms(3) False by (intro scan_colon_store) auto
  also have "\<dots> = pton6_scan (colon_hex suf) pre (Some (length pre)) (colon_hex suf) False 0"
    using False by (simp add: scan_colon_gap del: pton6_scan.simps)
  also have "\<dots> = Some (pre @ replicate (8 - length pre - length suf) 0 @ suf)"
    using scan_after_gap [OF assms(2), of pre "length pre" "colon_hex suf"] assms(3) by simp
  finally show ?thesis using pton6_words_plain [OF s d(1)] by simp
qed

text \<open>Decimal digits are hexadecimal digits, so the scan runs on to the dot.\<close>

lemma scan_digits_to_dot:
  "set ds \<subseteq> char_of ` {48 ..< 58 :: nat} \<Longrightarrow> length ds + k \<le> 4 \<Longrightarrow> val < 16 ^ k \<Longrightarrow>
   length g + 2 \<le> 8 \<Longrightarrow>
   pton6_scan (ds @ CHR ''.'' # rest) g colonp tok saw val = pton6_dot g colonp tok"
proof (induction ds arbitrary: k val saw)
  case Nil
  then show ?case by (simp add: xdigit_val_def)
next
  case (Cons ch ds)
  from Cons.prems(1) obtain n :: nat where n: "48 \<le> n" "n < 58" "ch = char_of n" by auto
  then have c: "(of_char ch :: nat) = n" by simp
  have x: "xdigit_val ch = Some (n - 48)" using n c by (simp add: xdigit_val_def Let_def)
  have "k < 4" using Cons.prems(2) by simp
  then have "(16 :: nat) ^ Suc k \<le> 16 ^ 4" by (intro power_increasing) simp_all
  moreover have "val * 16 + (n - 48) < 16 ^ Suc k" using Cons.prems(3) n by simp
  ultimately have b: "val * 16 + (n - 48) < 16 ^ Suc k" "val * 16 + (n - 48) \<le> 0xffff"
    by simp_all
  have "pton6_scan ((ch # ds) @ CHR ''.'' # rest) g colonp tok saw val
          = pton6_scan (ds @ CHR ''.'' # rest) g colonp tok True (val * 16 + (n - 48))"
    using x b(2) by simp
  also have "\<dots> = pton6_dot g colonp tok"
    using Cons.prems b(1) by (intro Cons.IH [of "Suc k"]) simp_all
  finally show ?case .
qed

text \<open>A gap followed by a dotted decimal tail, with or without the word \<^verbatim>\<open>ffff\<close> before it.\<close>

lemma scan_v4_tail:
  assumes "length g + 2 \<le> 8"
  shows "pton6_scan (inet_ntop4 [b0, b1, b2, b3]) g colonp (inet_ntop4 [b0, b1, b2, b3]) saw 0
           = pton6_finish (g @ [256 * of_char b0 + of_char b1, 256 * of_char b2 + of_char b3])
               colonp False 0"
proof -
  let ?T = "inet_ntop4 [b0, b1, b2, b3]"
  let ?rest = "decimal (of_char b1) @ CHR ''.'' # decimal (of_char b2) @ CHR ''.'' #
               decimal (of_char b3)"
  have T: "?T = decimal (of_char b0) @ CHR ''.'' # ?rest" by simp
  have d: "set (decimal (of_char b0)) \<subseteq> char_of ` {48 ..< 58 :: nat}"
    by (rule decimal_digits) simp
  have l: "length (decimal (of_char b0)) + 0 \<le> 4"
    using decimal_length [of "of_char b0"] by (simp add: order_less_trans [OF nat_of_char_less_256])
  have "pton6_scan (decimal (of_char b0) @ CHR ''.'' # ?rest) g colonp ?T saw 0
          = pton6_dot g colonp ?T"
    using d l assms by (intro scan_digits_to_dot [where k = 0]) simp_all
  then have "pton6_scan ?T g colonp ?T saw 0 = pton6_dot g colonp ?T"
    by (simp only: T [symmetric])
  then show ?thesis
    by (simp add: pton6_dot_def inet_pton4_scan_inet_ntop4 del: inet_ntop4.simps)
qed

lemma inet_ntop4_not_empty: "inet_ntop4 [b0, b1, b2, b3] \<noteq> []"
  by simp

lemma words_gap_v4:
  "pton6_words (CHR '':'' # CHR '':'' # inet_ntop4 [b0, b1, b2, b3])
     = Some (replicate 6 0 @ [256 * of_char b0 + of_char b1, 256 * of_char b2 + of_char b3])"
  using scan_v4_tail [of "[]" b0 b1 b2 b3 "Some 0" False]
  by (simp add: pton6_words_gap pton6_finish_def del: inet_ntop4.simps)

lemma words_gap_ffff_v4:
  "pton6_words (CHR '':'' # CHR '':'' # hex 0xffff @ CHR '':'' # inet_ntop4 [b0, b1, b2, b3])
     = Some (replicate 5 0 @ [0xffff, 256 * of_char b0 + of_char b1, 256 * of_char b2 + of_char b3])"
proof -
  let ?T = "inet_ntop4 [b0, b1, b2, b3]"
  let ?src = "hex 0xffff @ CHR '':'' # ?T"
  have "pton6_scan ?src [] (Some 0) ?src False 0
          = pton6_scan (CHR '':'' # ?T) [] (Some 0) ?src True 0xffff"
    by (rule scan_hex) simp
  also have "\<dots> = pton6_scan ?T ([] @ [0xffff]) (Some 0) ?T False 0"
    using inet_ntop4_not_empty [of b0 b1 b2 b3] by (intro scan_colon_store) simp_all
  also have "\<dots> = pton6_finish ([0xffff] @ [256 * of_char b0 + of_char b1,
                                              256 * of_char b2 + of_char b3]) (Some 0) False 0"
    using scan_v4_tail [of "[0xffff]" b0 b1 b2 b3 "Some 0" False] by simp
  finally show ?thesis
    by (simp add: pton6_words_gap pton6_finish_def del: inet_ntop4.simps)
qed

section \<open>Words and bytes\<close>

lemma bytes_of_words_of: "even (length bs) \<Longrightarrow> bytes_of (words_of bs) = bs"
proof (induction bs rule: words_of.induct)
  case (1 hi lo rest)
  have "(of_char lo :: nat) < 256" by simp
  then have "(256 * of_char hi + of_char lo) div 256 = (of_char hi :: nat)"
    and "(256 * of_char hi + of_char lo) mod 256 = (of_char lo :: nat)"
    by simp_all
  then show ?case using 1 by (simp add: bytes_of_def char_of_nat_eq)
qed (simp_all add: bytes_of_def)

lemma words_of_bound: "\<forall>w \<in> set (words_of bs). w \<le> 0xffff"
proof (induction bs rule: words_of.induct)
  case (1 hi lo rest)
  have "(of_char hi :: nat) < 256" and "(of_char lo :: nat) < 256" by simp_all
  then have "256 * (of_char hi :: nat) + of_char lo \<le> 0xffff" by linarith
  then show ?case using 1 by simp
qed simp_all

section \<open>The run of zero words\<close>

lemma find_run_zeros:
  "find_run ws i best cur = Some (b, l) \<Longrightarrow> i = length done \<Longrightarrow>
   (\<forall>bb bl. best = Some (bb, bl) \<longrightarrow> 1 \<le> bl \<and> take bl (drop bb done) = replicate bl 0) \<Longrightarrow>
   (\<forall>cb cl. cur = Some (cb, cl) \<longrightarrow> 1 \<le> cl \<and> drop cb done = replicate cl 0) \<Longrightarrow>
   1 \<le> l \<and> take l (drop b (done @ ws)) = replicate l 0"
proof (induction ws arbitrary: i best cur "done")
  case Nil
  then show ?case
    by (auto simp: better_def split: option.splits if_splits)
next
  case (Cons w ws)
  show ?case
  proof (cases "w = 0")
    case True
    let ?cur = "case cur of None \<Rightarrow> Some (i, 1) | Some (cb, cl) \<Rightarrow> Some (cb, cl + 1)"
    have f: "find_run ws (i + 1) best ?cur = Some (b, l)"
      using Cons.prems(1) True by simp
    have b: "\<forall>bb bl. best = Some (bb, bl) \<longrightarrow>
               1 \<le> bl \<and> take bl (drop bb (done @ [w])) = replicate bl 0"
    proof (intro allI impI)
      fix bb bl assume "best = Some (bb, bl)"
      with Cons.prems(3) have h: "1 \<le> bl" "take bl (drop bb done) = replicate bl 0" by auto
      from arg_cong [OF h(2), of length] have "bl \<le> length (drop bb done)"
        by simp
      then show "1 \<le> bl \<and> take bl (drop bb (done @ [w])) = replicate bl 0"
        using h by simp
    qed
    have c: "\<forall>cb cl. ?cur = Some (cb, cl) \<longrightarrow> 1 \<le> cl \<and> drop cb (done @ [w]) = replicate cl 0"
    proof (intro allI impI)
      fix cb cl assume a: "?cur = Some (cb, cl)"
      show "1 \<le> cl \<and> drop cb (done @ [w]) = replicate cl 0"
      proof (cases cur)
        case None
        then show ?thesis using a True Cons.prems(2) by auto
      next
        case (Some p)
        obtain pb pl where p: "p = (pb, pl)" by (cases p)
        with Some Cons.prems(4) have h: "1 \<le> pl" "drop pb done = replicate pl 0" by auto
        have "pb \<le> length done"
          using h by (cases "pb \<le> length done") auto
        then have "drop pb (done @ [w]) = replicate pl 0 @ [0]"
          using h(2) True by simp
        moreover have "cb = pb" and "cl = pl + 1" using a Some p by simp_all
        ultimately show ?thesis by (simp add: replicate_append_same)
      qed
    qed
    from Cons.IH [OF f _ b c] Cons.prems(2) show ?thesis by simp
  next
    case False
    let ?best = "case cur of None \<Rightarrow> best | Some c \<Rightarrow> better best c"
    have f: "find_run ws (i + 1) ?best None = Some (b, l)"
      using Cons.prems(1) False by simp
    have b: "\<forall>bb bl. ?best = Some (bb, bl) \<longrightarrow>
               1 \<le> bl \<and> take bl (drop bb (done @ [w])) = replicate bl 0"
    proof (intro allI impI)
      fix bb bl assume a: "?best = Some (bb, bl)"
      have "1 \<le> bl \<and> take bl (drop bb done) = replicate bl 0"
        using a Cons.prems(3) Cons.prems(4)
        by (auto simp: better_def split: option.splits if_splits)
      then have h: "1 \<le> bl" "take bl (drop bb done) = replicate bl 0" by auto
      from arg_cong [OF h(2), of length] have "bl \<le> length (drop bb done)"
        by simp
      then show "1 \<le> bl \<and> take bl (drop bb (done @ [w])) = replicate bl 0"
        using h by simp
    qed
    from Cons.IH [OF f _ b] Cons.prems(2) show ?thesis by simp
  qed
qed

lemma best_run_zeros:
  assumes "best_run ws = Some (b, l)"
  shows "2 \<le> l \<and> b + l \<le> length ws \<and> ws = take b ws @ replicate l 0 @ drop (b + l) ws"
proof -
  from assms have f: "find_run ws 0 None None = Some (b, l)" and l: "2 \<le> l"
    by (auto simp: best_run_def split: option.splits if_splits)
  from find_run_zeros [OF f, of "[]"] have t: "take l (drop b ws) = replicate l 0" by simp
  from arg_cong [OF this, of length] have "l \<le> length (drop b ws)"
    by simp
  then have le: "b + l \<le> length ws" using l by simp
  have "drop b ws = take l (drop b ws) @ drop l (drop b ws)"
    by (simp only: append_take_drop_id)
  then have "drop b ws = replicate l 0 @ drop (b + l) ws"
    using t by (simp add: add.commute)
  then have "ws = take b ws @ replicate l 0 @ drop (b + l) ws"
    using append_take_drop_id [of b ws] by simp
  then show ?thesis using l le by blast
qed

section \<open>The shape of the printed text\<close>

lemma colons_Nil [simp]: "colons [] = []"
  by (simp add: colons_def)

lemma colon_hex_Cons: "colon_hex (w # ws) = hex w @ colons ws"
  by (induction ws arbitrary: w) (simp_all add: colons_def)

lemma colons_Cons: "ws \<noteq> [] \<Longrightarrow> colons ws = CHR '':'' # colon_hex ws"
  by (cases ws) (simp_all add: colon_hex_Cons, simp add: colons_def)

text \<open>Behind the run every word is printed after a colon.\<close>

lemma emit_after:
  "\<forall>j \<ge> i. \<not> inside best j \<Longrightarrow> 0 < i \<Longrightarrow> \<not> encapsulated best w5 \<Longrightarrow>
   ntop6_emit best w5 v4 ws i = colons ws"
  by (induction ws arbitrary: i) (simp_all add: colons_def)

text \<open>Inside the run nothing is printed but one colon at its base.\<close>

lemma emit_inside:
  "1 \<le> l \<Longrightarrow> b \<le> i \<Longrightarrow> i \<le> b + l \<Longrightarrow> b + l - i \<le> length ws \<Longrightarrow>
   \<not> encapsulated (Some (b, l)) w5 \<Longrightarrow>
   ntop6_emit (Some (b, l)) w5 v4 ws i
     = (if i = b then [CHR '':''] else []) @ colons (drop (b + l - i) ws)"
proof (induction ws arbitrary: i)
  case Nil
  then show ?case by (auto simp: colons_def)
next
  case (Cons w ws)
  show ?case
  proof (cases "i = b + l")
    case True
    have "ntop6_emit (Some (b, l)) w5 v4 (w # ws) i = colons (w # ws)"
      using True Cons.prems by (intro emit_after) (auto simp: inside_def)
    then show ?thesis using True Cons.prems(1) by simp
  next
    case False
    then have lt: "i < b + l" using Cons.prems(3) by simp
    have "ntop6_emit (Some (b, l)) w5 v4 (w # ws) i
            = (if i = b then [CHR '':''] else []) @ ntop6_emit (Some (b, l)) w5 v4 ws (i + 1)"
      using lt Cons.prems(2) by (auto simp: inside_def)
    also have "ntop6_emit (Some (b, l)) w5 v4 ws (i + 1) = colons (drop (b + l - (i + 1)) ws)"
      using Cons.IH [of "i + 1"] Cons.prems lt by simp
    also have "drop (b + l - (i + 1)) ws = drop (b + l - i) (w # ws)"
      using lt by (simp add: drop_Cons' )
    finally show ?thesis .
  qed
qed

text \<open>Before the run every word is printed after a colon, but for the first.\<close>

lemma emit_before:
  "1 \<le> l \<Longrightarrow> 1 \<le> i \<Longrightarrow> i \<le> b \<Longrightarrow> b + l - i \<le> length ws \<Longrightarrow>
   \<not> encapsulated (Some (b, l)) w5 \<Longrightarrow>
   ntop6_emit (Some (b, l)) w5 v4 ws i
     = colons (take (b - i) ws) @ CHR '':'' # colons (drop (b + l - i) ws)"
proof (induction ws arbitrary: i)
  case Nil
  then show ?case by simp
next
  case (Cons w ws)
  show ?case
  proof (cases "i = b")
    case True
    then show ?thesis
      using emit_inside [of l b i "w # ws" w5 v4] Cons.prems
      by (simp del: ntop6_emit.simps)
  next
    case False
    then have lt: "i < b" using Cons.prems(3) by simp
    have "ntop6_emit (Some (b, l)) w5 v4 (w # ws) i
            = CHR '':'' # hex w @ ntop6_emit (Some (b, l)) w5 v4 ws (i + 1)"
      using lt Cons.prems by (auto simp: inside_def)
    also have "ntop6_emit (Some (b, l)) w5 v4 ws (i + 1)
                 = colons (take (b - (i + 1)) ws) @ CHR '':'' # colons (drop (b + l - (i + 1)) ws)"
      using Cons.IH [of "i + 1"] Cons.prems lt by simp
    also have "drop (b + l - (i + 1)) ws = drop (b + l - i) (w # ws)"
      using lt by (simp add: drop_Cons')
    also have "CHR '':'' # hex w @ colons (take (b - (i + 1)) ws) @ CHR '':'' #
                 colons (drop (b + l - i) (w # ws))
               = colons (take (b - i) (w # ws)) @ CHR '':'' # colons (drop (b + l - i) (w # ws))"
      using lt by (simp add: take_Cons' colons_def)
    finally show ?thesis .
  qed
qed

lemma emit_run:
  assumes "1 \<le> l" and "b + l \<le> length ws" and "\<not> encapsulated (Some (b, l)) w5"
  shows "ntop6_emit (Some (b, l)) w5 v4 ws 0
           = colon_hex (take b ws) @ CHR '':'' # colons (drop (b + l) ws)"
proof (cases b)
  case 0
  then show ?thesis
    using emit_inside [of l b 0 ws w5 v4] assms by (simp del: ntop6_emit.simps)
next
  case (Suc b')
  then obtain w ws' where ws: "ws = w # ws'" using assms(2) by (cases ws) auto
  have "ntop6_emit (Some (b, l)) w5 v4 ws 0 = hex w @ ntop6_emit (Some (b, l)) w5 v4 ws' 1"
    using Suc assms(3) by (simp add: ws inside_def)
  also have "ntop6_emit (Some (b, l)) w5 v4 ws' 1
               = colons (take (b - 1) ws') @ CHR '':'' # colons (drop (b + l - 1) ws')"
    using assms Suc ws by (intro emit_before) simp_all
  finally show ?thesis using Suc by (simp add: ws colon_hex_Cons)
qed

lemma emit_no_run: "ws \<noteq> [] \<Longrightarrow> ntop6_emit None w5 v4 ws 0 = colon_hex ws"
proof (cases ws)
  case Nil
  then show "ws \<noteq> [] \<Longrightarrow> ?thesis" by simp
next
  case (Cons w ws')
  have "ntop6_emit None w5 v4 ws' 1 = colons ws'"
    by (intro emit_after) (simp_all add: inside_def encapsulated_def)
  then show ?thesis by (simp add: Cons inside_def encapsulated_def colon_hex_Cons)
qed

section \<open>Length and bytes of the printed text\<close>

lemma hex_digit_not_NUL: "d < 16 \<Longrightarrow> hex_digit d \<noteq> CHR 0x00"
  using xdigit_val_hex_digit [of d] by (auto simp: xdigit_val_def)

lemma hex_length: "1 \<le> k \<Longrightarrow> w < 16 ^ k \<Longrightarrow> length (hex w) \<le> k"
proof (induction w arbitrary: k rule: hex.induct)
  case (1 w)
  show ?case
  proof (cases "w < 16")
    case True
    then show ?thesis using "1.prems" by (subst hex.simps) simp
  next
    case False
    then obtain k' where k: "k = Suc k'" and k': "1 \<le> k'"
      using "1.prems" by (cases k; cases "k - 1") auto
    have "w div 16 < 16 ^ k'" using "1.prems"(2) k by (simp add: less_mult_imp_div_less)
    then have "length (hex (w div 16)) \<le> k'" using "1.IH" False k' by simp
    then show ?thesis using False k by (subst hex.simps) simp
  qed
qed

lemma hex_no_NUL: "CHR 0x00 \<notin> set (hex w)"
proof (induction w rule: hex.induct)
  case (1 w)
  show ?case
  proof (cases "w < 16")
    case True
    then show ?thesis using hex_digit_not_NUL [of w] by (subst hex.simps) auto
  next
    case False
    have "w mod 16 < 16" by simp
    then have "hex_digit (w mod 16) \<noteq> CHR 0x00" by (rule hex_digit_not_NUL)
    then show ?thesis using "1.IH" False by (subst hex.simps) auto
  qed
qed

lemma hex_text: "w \<le> 0xffff \<Longrightarrow> length (hex w) \<le> 4 \<and> CHR 0x00 \<notin> set (hex w)"
  using hex_length [of 4 w] hex_no_NUL [of w] by simp

lemma colons_text:
  "\<forall>w \<in> set ws. w \<le> 0xffff \<Longrightarrow>
   length (colons ws) \<le> 5 * length ws \<and> CHR 0x00 \<notin> set (colons ws)"
proof (induction ws)
  case Nil
  then show ?case by simp
next
  case (Cons w ws)
  then have "length (hex w) \<le> 4" and "CHR 0x00 \<notin> set (hex w)"
    using hex_text [of w] by simp_all
  moreover have "colons (w # ws) = CHR '':'' # hex w @ colons ws" by (simp add: colons_def)
  ultimately show ?case using Cons by simp
qed

lemma colon_hex_text:
  assumes "\<forall>w \<in> set ws. w \<le> 0xffff"
  shows "length (colon_hex ws) \<le> 5 * length ws \<and> CHR 0x00 \<notin> set (colon_hex ws)"
proof (cases ws)
  case Nil
  then show ?thesis by simp
next
  case (Cons w ws')
  then have "length (hex w) \<le> 4" and "CHR 0x00 \<notin> set (hex w)"
    using hex_text [of w] assms by simp_all
  moreover have "length (colons ws') \<le> 5 * length ws'" and "CHR 0x00 \<notin> set (colons ws')"
    using colons_text [of ws'] assms Cons by simp_all
  ultimately show ?thesis by (simp add: Cons colon_hex_Cons)
qed

lemma emit_encapsulated6:
  "ntop6_emit (Some (0, 6)) w5 v4 [a0, a1, a2, a3, a4, a5, a6, a7] 0 = CHR '':'' # CHR '':'' # v4"
  by (simp add: inside_def encapsulated_def)

lemma emit_encapsulated5:
  "ntop6_emit (Some (0, 5)) 0xffff v4 [a0, a1, a2, a3, a4, a5, a6, a7] 0
     = CHR '':'' # CHR '':'' # hex a5 @ CHR '':'' # v4"
  by (simp add: inside_def encapsulated_def)

lemma words_of_append:
  "even (length xs) \<Longrightarrow> words_of (xs @ ys) = words_of xs @ words_of ys"
  by (induction xs rule: words_of.induct) simp_all

lemma length_words_of: "length (words_of bs) = length bs div 2"
  by (induction bs rule: words_of.induct) simp_all

section \<open>The library's round trip\<close>

lemma replicate6: "replicate 6 (0 :: nat) = [0, 0, 0, 0, 0, 0]"
  by (simp add: numeral_eq_Suc)

lemma replicate5: "replicate 5 (0 :: nat) = [0, 0, 0, 0, 0]"
  by (simp add: numeral_eq_Suc)

text \<open>
  For every sixteen bytes the text the printer gives is shorter than
  \<^verbatim>\<open>INET6_ADDRSTRLEN\<close>, has no NUL byte and is read back by the scanner as the same bytes.
\<close>

lemma bsd_text_reads_back:
  assumes "length bytes = 16"
  shows "\<exists>t. bsd_inet_ntop6 bytes = Some t \<and> length t < 46 \<and> CHR 0x00 \<notin> set t \<and>
             bsd_inet_pton6 t = Some bytes"
proof -
  define ws where "ws = words_of bytes"
  have len: "length ws = 8" using assms by (simp add: ws_def length_words_of)
  have bound: "\<forall>w \<in> set ws. w \<le> 0xffff" unfolding ws_def by (rule words_of_bound)
  have bw: "bytes_of ws = bytes" using assms by (simp add: ws_def bytes_of_words_of)
  from four_bytes [of "drop 12 bytes"] assms
  obtain c12 c13 c14 c15 where tail: "drop 12 bytes = [c12, c13, c14, c15]" by auto
  define v4 where "v4 = inet_ntop4 [c12, c13, c14, c15]"
  define w6 where "w6 = 256 * (of_char c12 :: nat) + of_char c13"
  define w7 where "w7 = 256 * (of_char c14 :: nat) + of_char c15"
  have v4_text: "length v4 \<le> 15" "CHR 0x00 \<notin> set v4"
    using inet_ntop4_text [of c12 c13 c14 c15] by (simp_all add: v4_def del: inet_ntop4.simps)
  have "ws = words_of (take 12 bytes @ drop 12 bytes)" by (simp add: ws_def)
  also have "\<dots> = words_of (take 12 bytes) @ words_of (drop 12 bytes)"
    using assms by (intro words_of_append) simp
  finally have "ws = words_of (take 12 bytes) @ [w6, w7]"
    by (simp add: tail w6_def w7_def)
  moreover have "length (words_of (take 12 bytes)) = 6"
    using assms by (simp add: length_words_of)
  ultimately have w67: "drop 6 ws = [w6, w7]" by simp
  define out where
    "out = ntop6_emit (best_run ws) (ws ! 5) v4 ws 0
              @ (case best_run ws of None \<Rightarrow> []
                 | Some (b, l) \<Rightarrow> if b + l = 8 then [CHR '':''] else [])"
  have nt: "bsd_inet_ntop6 bytes = Some out"
    using assms tail by (simp add: bsd_inet_ntop6_def Let_def out_def ws_def v4_def
                              del: inet_ntop4.simps)
  have main: "pton6_words out = Some ws \<and> length out < 46 \<and> CHR 0x00 \<notin> set out"
  proof (cases "best_run ws")
    case None
    have "ws \<noteq> []" using len by auto
    then have t: "out = colon_hex ws" by (simp add: out_def None emit_no_run)
    have "length (colon_hex ws) \<le> 5 * length ws" and "CHR 0x00 \<notin> set (colon_hex ws)"
      using colon_hex_text [OF bound] by simp_all
    then show ?thesis using words_colon_hex [OF len bound] len by (simp add: t)
  next
    case (Some r)
    obtain b l where r: "r = (b, l)" by (cases r)
    from best_run_zeros [of ws b l] Some r
    have l2: "2 \<le> l" and bl: "b + l \<le> 8"
      and z: "ws = take b ws @ replicate l 0 @ drop (b + l) ws"
      using len by auto
    show ?thesis
    proof (cases "encapsulated (Some (b, l)) (ws ! 5)")
      case False
      define pre where "pre = take b ws"
      define suf where "suf = drop (b + l) ws"
      have lp: "length pre = b" and ls: "length suf = 8 - (b + l)"
        using bl len by (simp_all add: pre_def suf_def)
      have bp: "\<forall>w \<in> set pre. w \<le> 0xffff" and bs: "\<forall>w \<in> set suf. w \<le> 0xffff"
        using bound by (auto simp: pre_def suf_def dest: in_set_takeD in_set_dropD)
      have e: "ntop6_emit (Some (b, l)) (ws ! 5) v4 ws 0 = colon_hex pre @ CHR '':'' # colons suf"
        unfolding pre_def suf_def using l2 bl len False by (intro emit_run) simp_all
      have t: "out = colon_hex pre @ CHR '':'' # CHR '':'' # colon_hex suf"
      proof (cases "b + l = 8")
        case True
        then have "suf = []" using ls by simp
        then show ?thesis using True by (simp add: out_def Some r e)
      next
        case False
        then have "suf \<noteq> []" using ls bl by auto
        then show ?thesis using False by (simp add: out_def Some r e colons_Cons)
      qed
      have "pton6_words out = Some (pre @ replicate (8 - length pre - length suf) 0 @ suf)"
        unfolding t using bp bs lp ls l2 bl by (intro words_gap) simp_all
      moreover have "8 - length pre - length suf = l" using lp ls bl by simp
      ultimately have p: "pton6_words out = Some ws"
        using z by (simp add: pre_def suf_def)
      have "length (colon_hex pre) \<le> 5 * length pre" and "CHR 0x00 \<notin> set (colon_hex pre)"
        and "length (colon_hex suf) \<le> 5 * length suf" and "CHR 0x00 \<notin> set (colon_hex suf)"
        using colon_hex_text [OF bp] colon_hex_text [OF bs] by simp_all
      then have "length out < 46" and "CHR 0x00 \<notin> set out"
        using lp ls l2 bl by (simp_all add: t)
      then show ?thesis using p by simp
    next
      case True
      then have b0: "b = 0" and l65: "l = 6 \<or> (l = 5 \<and> ws ! 5 = 0xffff)"
        by (simp_all add: encapsulated_def)
      show ?thesis
      proof (cases "l = 6")
        case True
        have w: "ws = [0, 0, 0, 0, 0, 0, w6, w7]"
          using z b0 True w67 by (simp add: replicate6)
        have t: "out = CHR '':'' # CHR '':'' # v4"
          by (subst out_def, subst w, subst (2) w)
             (simp add: Some r b0 True emit_encapsulated6 del: ntop6_emit.simps)
        have "pton6_words out = Some ws"
          unfolding t v4_def w w6_def w7_def using words_gap_v4 [of c12 c13 c14 c15]
          by (simp add: replicate6 del: inet_ntop4.simps)
        then show ?thesis using v4_text by (simp add: t)
      next
        case False
        then have l5: "l = 5" and f: "ws ! 5 = 0xffff" using l65 by simp_all
        have "drop 5 ws = ws ! 5 # drop 6 ws"
          using len by (simp add: Cons_nth_drop_Suc [symmetric])
        then have w: "ws = [0, 0, 0, 0, 0, 0xffff, w6, w7]"
          using z b0 l5 w67 f by (simp add: replicate5)
        have t: "out = CHR '':'' # CHR '':'' # hex 0xffff @ CHR '':'' # v4"
          by (subst out_def, subst w, subst (2) w)
             (simp add: Some r b0 l5 f emit_encapsulated5 del: ntop6_emit.simps)
        have "pton6_words out = Some ws"
          unfolding t v4_def w w6_def w7_def using words_gap_ffff_v4 [of c12 c13 c14 c15]
          by (simp add: replicate5 del: inet_ntop4.simps)
        moreover have "length (hex 0xffff) \<le> 4" and "CHR 0x00 \<notin> set (hex 0xffff)"
          using hex_text [of "0xffff"] by simp_all
        ultimately show ?thesis using v4_text by (simp add: t)
      qed
    qed
  qed
  have "bsd_inet_pton6 out = Some bytes"
    using main bw by (simp add: bsd_inet_pton6_def)
  then show ?thesis using nt main by blast
qed

lemma bsd_libc_reads_back: "length bytes = 16 \<Longrightarrow> inet6_text_reads_back bsd_libc bytes"
proof -
  assume "length bytes = 16"
  from bsd_text_reads_back [OF this] obtain t where
    t: "bsd_inet_ntop6 bytes = Some t" "length t < 46" "CHR 0x00 \<notin> set t"
       "bsd_inet_pton6 t = Some bytes"
    by blast
  have "c_str t = t" using t(3) by (auto simp: c_str_def)
  then show ?thesis using t by (simp add: inet6_text_reads_back_def bsd_libc_def)
qed

text \<open>
  C6. For every four bytes, \<^verbatim>\<open>IPSocket.pton\<close> of \<^verbatim>\<open>IPSocket.ntop\<close> for \<^verbatim>\<open>AF_INET\<close> is
  the four bytes again. For every sixteen bytes the same holds for \<^verbatim>\<open>AF_INET6\<close> with the
  conversions of the BSD resolver library, and with any other C library at every address
  whose text that library reads back. Four zero bytes print as \<^verbatim>\<open>0.0.0.0\<close>, which reads
  as four zero bytes.
\<close>

theorem presentation_roundtrip:
  assumes "abi_ok a"
  shows "(length bytes = 4 \<longrightarrow>
            then_do (mrb_ipsocket_ntop a L (int (AF_INET a)) bytes)
                    (mrb_ipsocket_pton a L (int (AF_INET a))) = Return bytes) \<and>
         (length bytes = 16 \<longrightarrow>
            then_do (mrb_ipsocket_ntop a bsd_libc (int (AF_INET6 a)) bytes)
                    (mrb_ipsocket_pton a bsd_libc (int (AF_INET6 a))) = Return bytes) \<and>
         (length bytes = 16 \<and> inet6_text_reads_back L bytes \<longrightarrow>
            then_do (mrb_ipsocket_ntop a L (int (AF_INET6 a)) bytes)
                    (mrb_ipsocket_pton a L (int (AF_INET6 a))) = Return bytes) \<and>
         mrb_ipsocket_ntop a L (int (AF_INET a)) [CHR 0x00, CHR 0x00, CHR 0x00, CHR 0x00]
           = Return ''0.0.0.0'' \<and>
         mrb_ipsocket_pton a L (int (AF_INET a)) ''0.0.0.0''
           = Return [CHR 0x00, CHR 0x00, CHR 0x00, CHR 0x00]"
proof -
  have z: "inet_ntop4 [CHR 0x00, CHR 0x00, CHR 0x00, CHR 0x00] = ''0.0.0.0''"
    by (simp add: decimal.simps char_of_nat_eq)
  have ne: "AF_INET a \<noteq> AF_INET6 a" using assms by (auto simp: abi_ok_def)
  have n: "mrb_ipsocket_ntop a L (int (AF_INET a)) [CHR 0x00, CHR 0x00, CHR 0x00, CHR 0x00]
             = Return ''0.0.0.0''"
    using ne by (simp add: mrb_ipsocket_ntop_def inet_ntop_def peek_def z del: inet_ntop4.simps)
  have "mrb_ipsocket_pton a L (int (AF_INET a))
          (inet_ntop4 [CHR 0x00, CHR 0x00, CHR 0x00, CHR 0x00])
          = Return [CHR 0x00, CHR 0x00, CHR 0x00, CHR 0x00]"
    using inet_ntop4_text [of "CHR 0x00" "CHR 0x00" "CHR 0x00" "CHR 0x00"]
    by (simp add: mrb_ipsocket_pton_def c_str_terminated inet_pton4_inet_ntop4
             del: inet_ntop4.simps)
  then have p: "mrb_ipsocket_pton a L (int (AF_INET a)) ''0.0.0.0''
             = Return [CHR 0x00, CHR 0x00, CHR 0x00, CHR 0x00]"
    by (simp only: z)
  have b: "length bytes = 16 \<longrightarrow>
            then_do (mrb_ipsocket_ntop a bsd_libc (int (AF_INET6 a)) bytes)
                    (mrb_ipsocket_pton a bsd_libc (int (AF_INET6 a))) = Return bytes"
    using ntop_pton_inet6 [OF assms, of bytes bsd_libc] bsd_libc_reads_back [of bytes] by blast
  show ?thesis
    using ntop_pton_inet [OF assms, of bytes L] ntop_pton_inet6 [OF assms, of bytes L] n p b
    by blast
qed

theorem presentation_roundtrip_witness:
  "abi_ok linux_x86_64 \<and>
   length [CHR 0xC0, CHR 0x00, CHR 0x02, CHR 0x01] = 4 \<and>
   then_do (mrb_ipsocket_ntop linux_x86_64 bsd_libc (int (AF_INET linux_x86_64))
              [CHR 0xC0, CHR 0x00, CHR 0x02, CHR 0x01])
           (mrb_ipsocket_pton linux_x86_64 bsd_libc (int (AF_INET linux_x86_64)))
     = Return [CHR 0xC0, CHR 0x00, CHR 0x02, CHR 0x01] \<and>
   length documentation_address = 16 \<and>
   inet6_text_reads_back bsd_libc documentation_address \<and>
   then_do (mrb_ipsocket_ntop linux_x86_64 bsd_libc (int (AF_INET6 linux_x86_64))
              documentation_address)
           (mrb_ipsocket_pton linux_x86_64 bsd_libc (int (AF_INET6 linux_x86_64)))
     = Return documentation_address"
proof -
  have h1: "abi_ok linux_x86_64" by (rule abi_ok_linux)
  have h2: "length [CHR 0xC0, CHR 0x00, CHR 0x02, CHR 0x01] = 4" by simp
  have h3: "length documentation_address = 16" by (simp add: documentation_address_def)
  have h4: "inet6_text_reads_back bsd_libc documentation_address"
    using h3 by (rule bsd_libc_reads_back)
  show ?thesis
    using h1 h2 h3 h4
      presentation_roundtrip [OF h1, of "[CHR 0xC0, CHR 0x00, CHR 0x02, CHR 0x01]" bsd_libc]
      presentation_roundtrip [OF h1, of documentation_address bsd_libc]
    by blast
qed

end
